theory Spec2Isabelle
  imports Main "HOL-Library.Word"
begin

section \<open>bubble: a periodic container churn controller (main.go)\<close>

text \<open>
  The program lists the containers of a Docker daemon, keeps those of one image, copies
  one of them \<open>Up\<close> times and deletes \<open>Down\<close> of them, on every tick of a timer. Its
  functions are embedded here one by one, under their own names: \<open>RatioValue\<close> and its
  methods, \<open>copyContainer\<close>, \<open>deleteContainer\<close>, \<open>job\<close> and the ratio coercion of
  \<open>main\<close>. Go's \<open>uint64\<close> is \<open>64 word\<close>, \<open>int\<close> is \<open>int\<close> (64 bits on the
  platform the Dockerfile builds for; the one conversion \<open>int(n)\<close> is \<open>sint\<close>).
\<close>

subsection \<open>Errors\<close>

text \<open>
  Go errors are values. One constructor per error the program builds, with the data its
  message is formatted from; \<open>DriverFailure\<close> is an error returned by the Docker client
  and \<open>NumError\<close> the \<open>*strconv.NumError\<close> of \<open>strconv.ParseUint\<close>.
\<close>

datatype num_err = ErrSyntax | ErrRange

datatype error =
    WrongFormat
  | NumError string num_err
  | DriverFailure string
  | CouldNotList error
  | CouldNotInspect string error
  | CouldNotCreate error
  | CouldNotStart string error
  | CouldNotStop string error
  | CouldNotRemove string error
  | CanNotDelete "64 word" int

text \<open>The three error kinds of the specification, as classes of these values.\<close>

fun is_FormatError :: "error \<Rightarrow> bool" where
  "is_FormatError WrongFormat = True"
| "is_FormatError (NumError f e) = True"
| "is_FormatError e = False"

fun is_DriverError :: "error \<Rightarrow> bool" where
  "is_DriverError (CouldNotList e) = True"
| "is_DriverError (CouldNotInspect i e) = True"
| "is_DriverError (CouldNotCreate e) = True"
| "is_DriverError (CouldNotStart i e) = True"
| "is_DriverError (CouldNotStop i e) = True"
| "is_DriverError (CouldNotRemove i e) = True"
| "is_DriverError e = False"

fun is_InsufficientCandidatesError :: "error \<Rightarrow> bool" where
  "is_InsufficientCandidatesError (CanNotDelete n l) = True"
| "is_InsufficientCandidatesError e = False"

subsection \<open>The two library functions \<open>RatioValue.Set\<close> calls\<close>

text \<open>
  Modelled from the spec: \<open>strings.Split\<close> and \<open>strconv.ParseUint\<close> are functions
  of Go's standard library, which is not part of the repository. The specification says
  what they are called for (to split on the colon, and to parse a non-negative integer
  that fits 8 bits); the rest follows the library's documentation. \<open>Split s sep\<close>
  cuts \<open>s\<close> at every occurrence of the one-byte separator, so it returns one token
  more than there are separators (the empty string gives one empty token).
\<close>

fun Split :: "string \<Rightarrow> char \<Rightarrow> string list" where
  "Split [] sep = [[]]"
| "Split (c # cs) sep =
     (if c = sep then [] # Split cs sep
      else (case Split cs sep of
              [] \<Rightarrow> [[c]]
            | t # ts \<Rightarrow> (c # t) # ts))"

text \<open>
  Modelled from the spec: \<open>strconv.ParseUint(s, 10, 8)\<close>. The empty string is a syntax
  error. Otherwise the bytes are read from the left: a byte that is not a decimal digit
  is a syntax error; the value is accumulated in a \<open>uint64\<close>, and as soon as it
  passes \<open>maxVal = 255\<close> the call stops with a range error and returns \<open>maxVal\<close>
  (the \<open>cutoff\<close> test guards the multiplication by ten against overflow). No sign and
  no underscore is accepted in base 10.
\<close>

definition is_digit :: "char \<Rightarrow> bool" where
  "is_digit c = (48 \<le> (of_char c :: nat) \<and> (of_char c :: nat) \<le> 57)"

definition digit_val :: "char \<Rightarrow> nat" where
  "digit_val c = of_char c - 48"

definition cutoff :: "64 word" where
  "cutoff = (- 1) div 10 + 1"

definition maxVal :: "64 word" where
  "maxVal = push_bit 8 1 - 1"

fun ParseUint_loop :: "string \<Rightarrow> 64 word \<Rightarrow> string \<Rightarrow> 64 word \<times> error option" where
  "ParseUint_loop s0 n [] = (n, None)"
| "ParseUint_loop s0 n (c # cs) =
     (if \<not> is_digit c then (0, Some (NumError s0 ErrSyntax))
      else if cutoff \<le> n then (maxVal, Some (NumError s0 ErrRange))
      else (let n10 = n * 10; n1 = n10 + of_nat (digit_val c)
            in if n1 < n10 \<or> maxVal < n1 then (maxVal, Some (NumError s0 ErrRange))
               else ParseUint_loop s0 n1 cs))"

definition ParseUint :: "string \<Rightarrow> 64 word \<times> error option" where
  "ParseUint s = (if s = [] then (0, Some (NumError s ErrSyntax)) else ParseUint_loop s 0 s)"

subsection \<open>RatioValue\<close>

record RatioValue =
  Up :: "64 word"
  Down :: "64 word"

text \<open>
  \<open>func (r *RatioValue) Set(s string) error\<close>: the receiver is a pointer, so the model
  returns the error (\<open>None\<close> is \<open>nil\<close>) together with the receiver as the call leaves
  it.
\<close>

definition RatioValue_Set :: "RatioValue \<Rightarrow> string \<Rightarrow> error option \<times> RatioValue" where
  "RatioValue_Set r s =
     (let vars = Split s (CHR '':'') in
      if length vars \<noteq> 2 then (Some WrongFormat, r)
      else (case ParseUint (vars ! 0) of
              (up, Some err) \<Rightarrow> (Some err, r)
            | (up, None) \<Rightarrow>
                (case ParseUint (vars ! 1) of
                   (down, Some err) \<Rightarrow> (Some err, r)
                 | (down, None) \<Rightarrow> (None, r\<lparr>Up := up, Down := down\<rparr>))))"

definition isZero :: "RatioValue \<Rightarrow> bool" where
  "isZero r = (Up r = 0 \<or> Down r = 0)"

text \<open>\<open>fmt.Sprintf("%v", x)\<close> of an unsigned integer: its decimal digits.\<close>

fun decimal_of_nat :: "nat \<Rightarrow> string" where
  "decimal_of_nat n =
     (if n < 10 then [char_of (48 + n)]
      else decimal_of_nat (n div 10) @ [char_of (48 + n mod 10)])"

declare decimal_of_nat.simps [simp del]

definition RatioValue_String :: "RatioValue \<Rightarrow> string" where
  "RatioValue_String r =
     (if Up r = 0 \<or> Down r = 0 then ''1:1''
      else decimal_of_nat (unat (Up r)) @ '':'' @ decimal_of_nat (unat (Down r)))"

text \<open>
  \<open>main\<close>, lines 153 to 155: after the flags are parsed, a ratio with a zero side is
  replaced by \<open>RatioValue{1, 1}\<close>. The variable starts as the zero value and the flag
  library calls \<open>Set\<close> on it when \<open>--ratio\<close> is given.
\<close>

definition resolve :: "RatioValue \<Rightarrow> RatioValue" where
  "resolve ratio = (if isZero ratio then \<lparr>Up = 1, Down = 1\<rparr> else ratio)"

definition zero_RatioValue :: RatioValue where
  "zero_RatioValue = \<lparr>Up = 0, Down = 0\<rparr>"

text \<open>
  Modelled from the spec: the flag library (pflag) is not part of the repository. For
  every value given for \<open>--ratio\<close> on the command line, in their order,
  \<open>flag.Parse\<close> calls \<open>Set\<close> on the variable \<open>ratio\<close> of \<open>main\<close>, which starts
  as the zero value; an error of \<open>Set\<close> ends the program before the loop starts.
  \<open>main_ratio\<close> is the ratio \<open>main\<close> hands to \<open>job\<close> on every tick: the parsed
  one after the coercion of lines 153 to 155.
\<close>

fun parse_ratio_flags :: "RatioValue \<Rightarrow> string list \<Rightarrow> error + RatioValue" where
  "parse_ratio_flags r [] = Inr r"
| "parse_ratio_flags r (v # vs) =
     (case RatioValue_Set r v of
        (Some err, r') \<Rightarrow> Inl err
      | (None, r') \<Rightarrow> parse_ratio_flags r' vs)"

definition main_ratio :: "string list \<Rightarrow> error + RatioValue" where
  "main_ratio vs =
     (case parse_ratio_flags zero_RatioValue vs of
        Inl err \<Rightarrow> Inl err
      | Inr ratio \<Rightarrow> Inr (resolve ratio))"

text \<open>
  What the specification calls a token that is an unsigned decimal integer in the range
  0 to 255: a non-empty string of decimal digits whose value is at most 255.
\<close>

fun decimal_acc :: "nat \<Rightarrow> string \<Rightarrow> nat" where
  "decimal_acc n [] = n"
| "decimal_acc n (c # cs) = decimal_acc (n * 10 + digit_val c) cs"

definition decimal_value :: "string \<Rightarrow> nat" where
  "decimal_value t = decimal_acc 0 t"

definition is_uint8 :: "string \<Rightarrow> bool" where
  "is_uint8 t = (t \<noteq> [] \<and> list_all is_digit t \<and> decimal_value t \<le> 255)"

subsection \<open>The Docker client and the effects of a run\<close>

text \<open>
  Modelled from the spec: the Docker API types (\<open>types.Container\<close>,
  \<open>types.ContainerJSON\<close>, \<open>container.ContainerCreateCreatedBody\<close>) are declared in
  the Docker module, not in the repository. They are given the fields the program
  reads, as the specification lists them: a container descriptor has an identifier, an
  image and its network endpoints (\<open>NetworkSettings.Networks\<close>); an inspection has
  a configuration, a host configuration and the endpoints the daemon reports then; a
  creation returns the new identifier and warnings. Configurations are opaque, and the
  pointers among these fields are taken to be set, as they are in the daemon's answers.
\<close>

type_synonym Config = string
type_synonym HostConfig = string
type_synonym EndpointsConfig = "(string \<times> string) list"

record Container =
  ID :: string
  Image :: string
  Networks :: EndpointsConfig

record ContainerJSON =
  Config :: Config
  HostConfig :: HostConfig
  InspectNetworks :: EndpointsConfig

record ContainerCreateCreatedBody =
  CreatedID :: string
  Warnings :: "string list"

text \<open>
  The Docker client is a parameter: a record of its seven methods the program calls,
  each a function of the daemon's state \<open>'w\<close> that returns its result and the state
  it leaves. A method that returns a Go error returns it on the left of a sum, or as
  \<open>Some\<close>. \<open>ContainerWait\<close> returns two channels, and the program receives from the
  first one only: the model's method says whether a value ever arrives on it.
\<close>

record 'w Client =
  ContainerList :: "'w \<Rightarrow> (error + Container list) \<times> 'w"
  ContainerInspect :: "string \<Rightarrow> 'w \<Rightarrow> (error + ContainerJSON) \<times> 'w"
  ContainerCreate ::
    "Config \<Rightarrow> HostConfig \<Rightarrow> EndpointsConfig \<Rightarrow> 'w \<Rightarrow> (error + ContainerCreateCreatedBody) \<times> 'w"
  ContainerStart :: "string \<Rightarrow> 'w \<Rightarrow> error option \<times> 'w"
  ContainerStop :: "string \<Rightarrow> 'w \<Rightarrow> error option \<times> 'w"
  ContainerWait :: "string \<Rightarrow> 'w \<Rightarrow> bool \<times> 'w"
  ContainerRemove :: "string \<Rightarrow> 'w \<Rightarrow> error option \<times> 'w"

datatype call =
    ListCall
  | InspectCall string
  | CreateCall Config HostConfig EndpointsConfig
  | StartCall string
  | StopCall string
  | WaitCall string
  | RemoveCall string

datatype level = Debug | Info | Warn

type_synonym entry = "level \<times> (string \<times> string) list \<times> string"

text \<open>
  The state a run threads: the daemon's state, the global random generator of
  \<open>math/rand\<close>, and three traces that make the effects observable, each in the order
  of execution: the calls made to the client, the draws \<open>(bound, result)\<close> of
  \<open>rand.Intn\<close>, and the entries written through logrus.
\<close>

record 'w state =
  world :: 'w
  rng :: "nat \<Rightarrow> nat"
  calls :: "call list"
  draws :: "(int \<times> int) list"
  logs :: "entry list"

text \<open>How a function of the program ends: it returns, it panics, or it waits forever.\<close>

datatype 'a outcome = Return 'a | Panic string | Blocked

definition invoke :: "call \<Rightarrow> ('w \<Rightarrow> 'r \<times> 'w) \<Rightarrow> 'w state \<Rightarrow> 'r \<times> 'w state" where
  "invoke c f s = (case f (world s) of (r, w) \<Rightarrow> (r, s\<lparr>world := w, calls := calls s @ [c]\<rparr>))"

definition log :: "level \<Rightarrow> (string \<times> string) list \<Rightarrow> string \<Rightarrow> 'w state \<Rightarrow> 'w state" where
  "log l fs msg s = s\<lparr>logs := logs s @ [(l, fs, msg)]\<rparr>"

text \<open>
  Modelled from the spec: \<open>rand.Intn\<close> is a function of Go's standard library, which
  is not part of the repository. It panics when its bound is not positive and returns a
  number in \<open>[0, n)\<close> otherwise. The generator is the sequence of raw numbers it
  will produce; a draw reduces the next one into the range, so every sequence of
  in-range results is the behaviour of some generator.
\<close>

definition Intn :: "int \<Rightarrow> 'w state \<Rightarrow> (string + int) \<times> 'w state" where
  "Intn n s =
     (if n \<le> 0 then (Inl ''invalid argument to Intn'', s)
      else (let v = int (rng s 0) mod n
            in (Inr v, s\<lparr>rng := (\<lambda>k. rng s (Suc k)), draws := draws s @ [(n, v)]\<rparr>)))"

text \<open>Indexing a slice panics out of range.\<close>

definition index :: "'a list \<Rightarrow> int \<Rightarrow> string + 'a" where
  "index xs i =
     (if 0 \<le> i \<and> i < int (length xs) then Inr (xs ! nat i) else Inl ''index out of range'')"

subsection \<open>copyContainer\<close>

text \<open>
  One pass through the body of the loop of lines 33 to 53. The result is \<open>Some err\<close>
  when the body returns \<open>err\<close> from the function, and \<open>None\<close> when it reaches its
  end and the loop goes on.
\<close>

definition copyContainer_body ::
  "'w Client \<Rightarrow> Config \<Rightarrow> HostConfig \<Rightarrow> EndpointsConfig \<Rightarrow> 'w state \<Rightarrow> error option \<times> 'w state" where
  "copyContainer_body client containerConfig hostConfig networkConfig s =
     (case invoke (CreateCall containerConfig hostConfig networkConfig)
             (ContainerCreate client containerConfig hostConfig networkConfig) s of
        (Inl err, s1) \<Rightarrow> (Some (CouldNotCreate err), s1)
      | (Inr createdBody, s1) \<Rightarrow>
          (let s2 = foldl (\<lambda>t warning. log Warn [] warning t) s1 (Warnings createdBody);
               s3 = log Info [(''container'', CreatedID createdBody)] ''create container'' s2
           in (case invoke (StartCall (CreatedID createdBody))
                      (ContainerStart client (CreatedID createdBody)) s3 of
                 (Some err, s4) \<Rightarrow> (Some (CouldNotStart (CreatedID createdBody) err), s4)
               | (None, s4) \<Rightarrow>
                   (None, log Info [(''container'', CreatedID createdBody)] ''start container'' s4))))"

text \<open>The loop \<open>for i := uint64(0); i < n; i++\<close>, from the counter \<open>i\<close> on.\<close>

function copyContainer_loop ::
  "'w Client \<Rightarrow> Config \<Rightarrow> HostConfig \<Rightarrow> EndpointsConfig \<Rightarrow> 64 word \<Rightarrow> 64 word \<Rightarrow> 'w state
     \<Rightarrow> error option \<times> 'w state" where
  "copyContainer_loop client containerConfig hostConfig networkConfig n i s =
     (if i < n then
        (case copyContainer_body client containerConfig hostConfig networkConfig s of
           (Some err, s1) \<Rightarrow> (Some err, s1)
         | (None, s1) \<Rightarrow>
             copyContainer_loop client containerConfig hostConfig networkConfig n (i + 1) s1)
      else (None, s))"
  by pat_completeness auto
termination
  by (relation "measure (\<lambda>(client, cc, hc, nc, n, i, s). unat n - unat i)")
     (simp, simp, unat_arith)

declare copyContainer_loop.simps [simp del]

definition copyContainer ::
  "'w Client \<Rightarrow> Container \<Rightarrow> 64 word \<Rightarrow> 'w state \<Rightarrow> error option \<times> 'w state" where
  "copyContainer client container n s =
     (case invoke (InspectCall (ID container)) (ContainerInspect client (ID container)) s of
        (Inl err, s1) \<Rightarrow> (Some (CouldNotInspect (ID container) err), s1)
      | (Inr infos, s1) \<Rightarrow>
          (let containerConfig = Config infos;
               hostConfig = HostConfig infos;
               networkConfig = Networks container
           in copyContainer_loop client containerConfig hostConfig networkConfig n 0 s1))"

subsection \<open>deleteContainer\<close>

text \<open>
  One pass through the body of the loop of lines 61 to 74: \<open>Some\<close> of how the function
  ends when the body ends it, \<open>None\<close> when the loop goes on. The error that
  \<open>ContainerWait\<close> may send on its second channel is dropped by the program, which
  then receives from the first one: when nothing arrives there the function never
  returns.
\<close>

definition deleteContainer_body ::
  "'w Client \<Rightarrow> Container list \<Rightarrow> 'w state \<Rightarrow> error option outcome option \<times> 'w state" where
  "deleteContainer_body client candidates s =
     (case Intn (int (length candidates)) s of
        (Inl msg, s1) \<Rightarrow> (Some (Panic msg), s1)
      | (Inr j, s1) \<Rightarrow>
          (case index candidates j of
             Inl msg \<Rightarrow> (Some (Panic msg), s1)
           | Inr container \<Rightarrow>
               (case invoke (StopCall (ID container)) (ContainerStop client (ID container)) s1 of
                  (Some err, s2) \<Rightarrow> (Some (Return (Some (CouldNotStop (ID container) err))), s2)
                | (None, s2) \<Rightarrow>
                    (case invoke (WaitCall (ID container)) (ContainerWait client (ID container))
                            (log Info [(''container'', ID container)] ''stop container'' s2) of
                       (False, s3) \<Rightarrow> (Some Blocked, s3)
                     | (True, s3) \<Rightarrow>
                         (case invoke (RemoveCall (ID container))
                                 (ContainerRemove client (ID container)) s3 of
                            (Some err, s4) \<Rightarrow>
                              (Some (Return (Some (CouldNotRemove (ID container) err))), s4)
                          | (None, s4) \<Rightarrow>
                              (None, log Info [(''container'', ID container)]
                                       ''remove container'' s4))))))"

function deleteContainer_loop ::
  "'w Client \<Rightarrow> Container list \<Rightarrow> 64 word \<Rightarrow> 64 word \<Rightarrow> 'w state
     \<Rightarrow> error option outcome \<times> 'w state" where
  "deleteContainer_loop client candidates n i s =
     (if i < n then
        (case deleteContainer_body client candidates s of
           (Some ended, s1) \<Rightarrow> (ended, s1)
         | (None, s1) \<Rightarrow> deleteContainer_loop client candidates n (i + 1) s1)
      else (Return None, s))"
  by pat_completeness auto
termination
  by (relation "measure (\<lambda>(client, candidates, n, i, s). unat n - unat i)")
     (simp, simp, unat_arith)

declare deleteContainer_loop.simps [simp del]

definition deleteContainer ::
  "'w Client \<Rightarrow> Container list \<Rightarrow> 64 word \<Rightarrow> 'w state \<Rightarrow> error option outcome \<times> 'w state" where
  "deleteContainer client candidates n s =
     (if int (length candidates) < sint n
      then (Return (Some (CanNotDelete n (int (length candidates)))), s)
      else deleteContainer_loop client candidates n 0 s)"

subsection \<open>job\<close>

text \<open>The loop of lines 83 to 88: the listed containers of the image, in their order.\<close>

definition job_candidates :: "string \<Rightarrow> Container list \<Rightarrow> Container list" where
  "job_candidates img containers =
     foldl (\<lambda>candidates container.
              if Image container = img then candidates @ [container] else candidates)
       [] containers"

text \<open>
  The parameter \<open>image\<close> is written \<open>img\<close>. \<open>rand.Seed(time.Now().Unix())\<close>
  replaces the global generator by the one the clock's reading determines: that
  generator is the argument \<open>seeded\<close>.
\<close>

definition job ::
  "'w Client \<Rightarrow> string \<Rightarrow> RatioValue \<Rightarrow> (nat \<Rightarrow> nat) \<Rightarrow> 'w state
     \<Rightarrow> error option outcome \<times> 'w state" where
  "job client img ratio seeded s =
     (case invoke ListCall (ContainerList client) s of
        (Inl err, s1) \<Rightarrow> (Return (Some (CouldNotList err)), s1)
      | (Inr containers, s1) \<Rightarrow>
          (let candidates = job_candidates img containers;
               s2 = foldl (\<lambda>t candidate.
                             log Debug [(''container'', ID candidate), (''image'', Image candidate)]
                               ''found container'' t)
                      s1 candidates
           in if length candidates = 0 then (Return None, s2)
              else (case Intn (int (length candidates)) (s2\<lparr>rng := seeded\<rparr>) of
                      (Inl msg, s3) \<Rightarrow> (Panic msg, s3)
                    | (Inr j, s3) \<Rightarrow>
                        (case index candidates j of
                           Inl msg \<Rightarrow> (Panic msg, s3)
                         | Inr containertoCopy \<Rightarrow>
                             (case copyContainer client containertoCopy (Up ratio) s3 of
                                (Some err, s4) \<Rightarrow> (Return (Some err), s4)
                              | (None, s4) \<Rightarrow>
                                  (case deleteContainer client candidates (Down ratio) s4 of
                                     (Return (Some err), s5) \<Rightarrow> (Return (Some err), s5)
                                   | (other, s5) \<Rightarrow> (other, s5)))))))"

subsection \<open>Traces\<close>

text \<open>
  The calls that create and start the containers of the given creation results, and the
  calls that tear one container down.
\<close>

definition replicas :: "Config \<Rightarrow> HostConfig \<Rightarrow> EndpointsConfig \<Rightarrow> ContainerCreateCreatedBody list \<Rightarrow> call list" where
  "replicas cc hc nc bodies = concat (map (\<lambda>b. [CreateCall cc hc nc, StartCall (CreatedID b)]) bodies)"

definition teardown :: "Container \<Rightarrow> call list" where
  "teardown c = [StopCall (ID c), WaitCall (ID c), RemoveCall (ID c)]"

text \<open>
  The containers \<open>m\<close> successive draws pick in a pool with the generator \<open>g\<close>: the
  draw number \<open>q\<close> is the raw number \<open>g q\<close> reduced into the whole pool.
\<close>

definition drawn :: "Container list \<Rightarrow> (nat \<Rightarrow> nat) \<Rightarrow> nat \<Rightarrow> Container list" where
  "drawn candidates g m = map (\<lambda>q. candidates ! (g q mod length candidates)) [0..<m]"

definition drawn_pairs :: "Container list \<Rightarrow> (nat \<Rightarrow> nat) \<Rightarrow> nat \<Rightarrow> (int \<times> int) list" where
  "drawn_pairs candidates g m =
     map (\<lambda>q. (int (length candidates), int (g q mod length candidates))) [0..<m]"

text \<open>
  What the client answers, read off the client alone. \<open>copies_done\<close>: from the daemon
  state \<open>w\<close>, creating and starting one container after the other succeeds every
  time, the creations return \<open>bodies\<close> in this order, and the daemon is left in
  \<open>w'\<close>. \<open>copy_fails\<close>: from \<open>w\<close> the next creation fails, or it succeeds and the
  start of the created container fails; \<open>r\<close> is the wrapped error, \<open>cs\<close> the calls
  made up to the failure and \<open>w'\<close> the state the failing call leaves.
\<close>

fun copies_done ::
  "'w Client \<Rightarrow> Config \<Rightarrow> HostConfig \<Rightarrow> EndpointsConfig \<Rightarrow> 'w
     \<Rightarrow> ContainerCreateCreatedBody list \<Rightarrow> 'w \<Rightarrow> bool" where
  "copies_done client cc hc nc w [] w' = (w' = w)"
| "copies_done client cc hc nc w (b # bs) w' =
     (case ContainerCreate client cc hc nc w of
        (Inl e, w1) \<Rightarrow> False
      | (Inr b', w1) \<Rightarrow>
          b' = b \<and>
          (case ContainerStart client (CreatedID b) w1 of
             (Some e, w2) \<Rightarrow> False
           | (None, w2) \<Rightarrow> copies_done client cc hc nc w2 bs w'))"

definition copy_fails ::
  "'w Client \<Rightarrow> Config \<Rightarrow> HostConfig \<Rightarrow> EndpointsConfig \<Rightarrow> 'w
     \<Rightarrow> error option \<Rightarrow> call list \<Rightarrow> 'w \<Rightarrow> bool" where
  "copy_fails client cc hc nc w r cs w' =
     (case ContainerCreate client cc hc nc w of
        (Inl e, w1) \<Rightarrow>
          r = Some (CouldNotCreate e) \<and> cs = [CreateCall cc hc nc] \<and> w' = w1
      | (Inr b, w1) \<Rightarrow>
          (case ContainerStart client (CreatedID b) w1 of
             (Some e, w2) \<Rightarrow>
               r = Some (CouldNotStart (CreatedID b) e)
               \<and> cs = [CreateCall cc hc nc, StartCall (CreatedID b)] \<and> w' = w2
           | (None, w2) \<Rightarrow> False))"

text \<open>
  \<open>torn_down\<close>: from the daemon state \<open>w\<close>, stopping, awaiting and removing the
  containers \<open>vs\<close> one after the other succeeds every time (no error, and the wait is
  answered), and the daemon is left in \<open>w'\<close>. \<open>teardown_fails\<close>: from \<open>w\<close> the
  teardown of \<open>v\<close> does not get through: the stop fails, or the wait is never
  answered, or the removal fails; \<open>r\<close> is how \<open>deleteContainer\<close> then ends, \<open>cs\<close>
  the calls made up to there and \<open>w'\<close> the state the last call leaves.
\<close>

fun torn_down :: "'w Client \<Rightarrow> 'w \<Rightarrow> Container list \<Rightarrow> 'w \<Rightarrow> bool" where
  "torn_down client w [] w' = (w' = w)"
| "torn_down client w (v # vs) w' =
     (case ContainerStop client (ID v) w of
        (Some e, w1) \<Rightarrow> False
      | (None, w1) \<Rightarrow>
          (case ContainerWait client (ID v) w1 of
             (False, w2) \<Rightarrow> False
           | (True, w2) \<Rightarrow>
               (case ContainerRemove client (ID v) w2 of
                  (Some e, w3) \<Rightarrow> False
                | (None, w3) \<Rightarrow> torn_down client w3 vs w')))"

definition teardown_fails ::
  "'w Client \<Rightarrow> 'w \<Rightarrow> Container \<Rightarrow> error option outcome \<Rightarrow> call list \<Rightarrow> 'w \<Rightarrow> bool" where
  "teardown_fails client w v r cs w' =
     (case ContainerStop client (ID v) w of
        (Some e, w1) \<Rightarrow>
          r = Return (Some (CouldNotStop (ID v) e)) \<and> cs = [StopCall (ID v)] \<and> w' = w1
      | (None, w1) \<Rightarrow>
          (case ContainerWait client (ID v) w1 of
             (False, w2) \<Rightarrow>
               r = Blocked \<and> cs = [StopCall (ID v), WaitCall (ID v)] \<and> w' = w2
           | (True, w2) \<Rightarrow>
               (case ContainerRemove client (ID v) w2 of
                  (Some e, w3) \<Rightarrow>
                    r = Return (Some (CouldNotRemove (ID v) e))
                    \<and> cs = [StopCall (ID v), WaitCall (ID v), RemoveCall (ID v)] \<and> w' = w3
                | (None, w3) \<Rightarrow> False)))"

subsection \<open>A small daemon to run the functions on\<close>

text \<open>
  A client whose calls all succeed, over a daemon state that counts the containers
  created so far: it lists a fixed sequence of containers, reports for a container
  \<open>i\<close> the configuration \<open>cfg-i\<close>, and names the containers it creates
  \<open>new\<close>, \<open>new+\<close>, \<open>new++\<close> and so on. Failing clients are variants of it.
\<close>

definition ok_client :: "Container list \<Rightarrow> nat Client" where
  "ok_client listing =
     \<lparr>ContainerList = (\<lambda>w. (Inr listing, w)),
      ContainerInspect = (\<lambda>i w.
        (Inr \<lparr>Config = ''cfg-'' @ i, HostConfig = ''host-'' @ i,
              InspectNetworks = [(''inspected'', i)]\<rparr>, w)),
      ContainerCreate = (\<lambda>c h e w.
        (Inr \<lparr>CreatedID = ''new'' @ replicate w (CHR ''+''), Warnings = []\<rparr>, Suc w)),
      ContainerStart = (\<lambda>i w. (None, w)),
      ContainerStop = (\<lambda>i w. (None, w)),
      ContainerWait = (\<lambda>i w. (True, w)),
      ContainerRemove = (\<lambda>i w. (None, w))\<rparr>"

definition app :: "string \<Rightarrow> Container" where
  "app i = \<lparr>ID = i, Image = ''app:v1'', Networks = [(''bridge'', i)]\<rparr>"

definition db :: "string \<Rightarrow> Container" where
  "db i = \<lparr>ID = i, Image = ''db:v2'', Networks = [(''bridge'', i)]\<rparr>"

definition start_state :: "(nat \<Rightarrow> nat) \<Rightarrow> nat state" where
  "start_state g = \<lparr>world = 0, rng = g, calls = [], draws = [], logs = []\<rparr>"

definition zeros :: "nat \<Rightarrow> nat" where
  "zeros k = 0"

definition ups :: "nat \<Rightarrow> nat" where
  "ups k = Suc k"

definition inspect_fails :: "nat Client \<Rightarrow> nat Client" where
  "inspect_fails client = client\<lparr>ContainerInspect := (\<lambda>i w. (Inl (DriverFailure ''gone''), w))\<rparr>"

definition create_fails :: "nat Client \<Rightarrow> nat Client" where
  "create_fails client = client\<lparr>ContainerCreate := (\<lambda>c h e w. (Inl (DriverFailure ''full''), w))\<rparr>"

definition stop_fails :: "nat Client \<Rightarrow> nat Client" where
  "stop_fails client = client\<lparr>ContainerStop := (\<lambda>i w. (Some (DriverFailure ''gone''), w))\<rparr>"

definition wait_hangs :: "nat Client \<Rightarrow> nat Client" where
  "wait_hangs client = client\<lparr>ContainerWait := (\<lambda>i w. (False, w))\<rparr>"

definition start_fails :: "nat Client \<Rightarrow> nat Client" where
  "start_fails client = client\<lparr>ContainerStart := (\<lambda>i w. (Some (DriverFailure ''busy''), w))\<rparr>"

section \<open>Proofs\<close>

subsection \<open>Splitting and parsing\<close>

lemma Split_nonempty: "Split s sep \<noteq> []"
  by (induction s) (auto split: list.splits)

lemma Split_length: "length (Split s sep) = Suc (count_list s sep)"
  by (induction s) (auto split: list.splits simp: Split_nonempty)

lemma Split_none: "sep \<notin> set s \<Longrightarrow> Split s sep = [s]"
  by (induction s) (auto split: list.splits)

lemma Split_append: "sep \<notin> set a \<Longrightarrow> Split (a @ sep # b) sep = a # Split b sep"
  by (induction a) (auto split: list.splits)

lemma count_list_0: "count_list s x = 0 \<longleftrightarrow> x \<notin> set s"
  by (induction s) auto

lemma Split_two:
  "length (Split s sep) = 2 \<longleftrightarrow> (\<exists>a b. s = a @ sep # b \<and> sep \<notin> set a \<and> sep \<notin> set b)"
proof
  assume "length (Split s sep) = 2"
  then have c: "count_list s sep = 1" by (simp add: Split_length)
  then have "sep \<in> set s" using count_list_0[of s sep] by auto
  then obtain a b where s: "s = a @ sep # b" and a: "sep \<notin> set a"
    by (meson split_list_first)
  from c s a have "count_list b sep = 0" using count_list_0[of a sep] by simp
  then have "sep \<notin> set b" by (simp add: count_list_0)
  with s a show "\<exists>a b. s = a @ sep # b \<and> sep \<notin> set a \<and> sep \<notin> set b" by blast
next
  assume "\<exists>a b. s = a @ sep # b \<and> sep \<notin> set a \<and> sep \<notin> set b"
  then show "length (Split s sep) = 2" by (auto simp: Split_append Split_none)
qed

lemma decimal_acc_ge: "n \<le> decimal_acc n cs"
proof (induction cs arbitrary: n)
  case Nil show ?case by simp
next
  case (Cons c cs)
  have "n \<le> n * 10 + digit_val c" by simp
  also have "\<dots> \<le> decimal_acc (n * 10 + digit_val c) cs" by (rule Cons.IH)
  finally show ?case by simp
qed

lemma cutoff_val: "unat cutoff = 1844674407370955162"
  by (simp add: cutoff_def)

lemma maxVal_val: "maxVal = 255" by (simp add: maxVal_def)

lemma digit_val_le: "is_digit c \<Longrightarrow> digit_val c \<le> 9"
  unfolding is_digit_def digit_val_def by arith

lemma step_unat:
  assumes n: "unat (n :: 64 word) \<le> 255" and d: "d \<le> 9"
  shows "unat (n * 10 + of_nat d) = unat n * 10 + d"
    and "unat (n * 10) = unat n * 10"
proof -
  have a: "unat (n * 10) = unat n * 10"
    using n by (simp add: unat_word_ariths)
  have b: "unat (of_nat d :: 64 word) = d"
    using d by (simp add: unat_of_nat)
  show "unat (n * 10 + of_nat d) = unat n * 10 + d"
    using n d by (simp add: unat_word_ariths(1) a b)
  show "unat (n * 10) = unat n * 10" by (rule a)
qed

lemma not_cutoff: "unat (n :: 64 word) \<le> 255 \<Longrightarrow> \<not> cutoff \<le> n"
  by (simp add: word_le_nat_alt cutoff_val)

lemma ParseUint_loop_step:
  assumes n: "unat n \<le> 255" and c: "is_digit c"
  shows "ParseUint_loop s0 n (c # cs) =
     (if 255 < unat n * 10 + digit_val c then (maxVal, Some (NumError s0 ErrRange))
      else ParseUint_loop s0 (n * 10 + of_nat (digit_val c)) cs)"
  using step_unat[OF n digit_val_le[OF c]] not_cutoff[OF n] c
  by (simp add: Let_def word_less_nat_alt maxVal_val)

lemma ParseUint_loop_None:
  "unat n \<le> 255 \<Longrightarrow>
   (snd (ParseUint_loop s0 n cs) = None) = (list_all is_digit cs \<and> decimal_acc (unat n) cs \<le> 255)"
proof (induction cs arbitrary: n)
  case Nil then show ?case by simp
next
  case (Cons c cs)
  show ?case
  proof (cases "is_digit c")
    case False then show ?thesis by simp
  next
    case True
    note st = step_unat(1)[OF Cons.prems digit_val_le[OF True]]
    show ?thesis
    proof (cases "255 < unat n * 10 + digit_val c")
      case big: True
      have "unat n * 10 + digit_val c \<le> decimal_acc (unat n * 10 + digit_val c) cs"
        by (rule decimal_acc_ge)
      with big have "\<not> decimal_acc (unat n * 10 + digit_val c) cs \<le> 255" by simp
      with big True show ?thesis by (simp add: ParseUint_loop_step[OF Cons.prems True] del: ParseUint_loop.simps)
    next
      case small: False
      then have "unat (n * 10 + of_nat (digit_val c)) \<le> 255" by (simp add: st)
      from Cons.IH[OF this] small True show ?thesis
        by (simp add: ParseUint_loop_step[OF Cons.prems True] st del: ParseUint_loop.simps)
    qed
  qed
qed

lemma ParseUint_loop_value:
  "unat n \<le> 255 \<Longrightarrow> snd (ParseUint_loop s0 n cs) = None \<Longrightarrow>
   fst (ParseUint_loop s0 n cs) = of_nat (decimal_acc (unat n) cs)"
proof (induction cs arbitrary: n)
  case Nil then show ?case by simp
next
  case (Cons c cs)
  from Cons.prems(2) have dig: "is_digit c" by (auto split: if_splits)
  note st = step_unat(1)[OF Cons.prems(1) digit_val_le[OF dig]]
  note eq = ParseUint_loop_step[OF Cons.prems(1) dig]
  from Cons.prems(2) have small: "\<not> 255 < unat n * 10 + digit_val c"
    by (auto simp: eq simp del: ParseUint_loop.simps split: if_splits)
  then have le: "unat (n * 10 + of_nat (digit_val c)) \<le> 255" by (simp add: st)
  from Cons.prems(2) small have "snd (ParseUint_loop s0 (n * 10 + of_nat (digit_val c)) cs) = None"
    by (simp add: eq del: ParseUint_loop.simps)
  from Cons.IH[OF le this] small show ?case by (simp add: eq st del: ParseUint_loop.simps)
qed

lemma ParseUint_loop_error:
  "snd (ParseUint_loop s0 n cs) = Some e \<Longrightarrow> is_FormatError e"
  by (induction cs arbitrary: n) (auto simp: Let_def split: if_splits)

lemma ParseUint_None: "(snd (ParseUint t) = None) = is_uint8 t"
  using ParseUint_loop_None[of 0 t t]
  by (auto simp: ParseUint_def is_uint8_def decimal_value_def)

lemma ParseUint_value: "snd (ParseUint t) = None \<Longrightarrow> fst (ParseUint t) = of_nat (decimal_value t)"
  using ParseUint_loop_value[of 0 t t]
  by (auto simp: ParseUint_def decimal_value_def split: if_splits)

lemma ParseUint_error: "snd (ParseUint t) = Some e \<Longrightarrow> is_FormatError e"
  using ParseUint_loop_error[of t 0 t e]
  by (auto simp: ParseUint_def split: if_splits)

lemma Set_cases:
  "RatioValue_Set r s =
     (if length (Split s (CHR '':'')) \<noteq> 2 then (Some WrongFormat, r)
      else if snd (ParseUint (Split s (CHR '':'') ! 0)) \<noteq> None
        then (snd (ParseUint (Split s (CHR '':'') ! 0)), r)
      else if snd (ParseUint (Split s (CHR '':'') ! 1)) \<noteq> None
        then (snd (ParseUint (Split s (CHR '':'') ! 1)), r)
      else (None, r\<lparr>Up := fst (ParseUint (Split s (CHR '':'') ! 0)),
                      Down := fst (ParseUint (Split s (CHR '':'') ! 1))\<rparr>))"
  by (auto simp: RatioValue_Set_def Let_def split: prod.splits option.splits)

lemma Split_one_sep:
  "CHR '':'' \<notin> set a \<Longrightarrow> CHR '':'' \<notin> set b \<Longrightarrow> Split (a @ CHR '':'' # b) (CHR '':'') = [a, b]"
  by (simp add: Split_append Split_none)

lemma is_uint8_no_sep: "is_uint8 t \<Longrightarrow> CHR '':'' \<notin> set t"
  by (auto simp: is_uint8_def list_all_iff is_digit_def)

lemma Set_succeeds_iff:
  "(fst (RatioValue_Set r s) = None) =
     (\<exists>a b. s = a @ CHR '':'' # b \<and> CHR '':'' \<notin> set a \<and> CHR '':'' \<notin> set b
        \<and> is_uint8 a \<and> is_uint8 b)"
proof
  assume ok: "fst (RatioValue_Set r s) = None"
  then have len: "length (Split s (CHR '':'')) = 2"
    by (auto simp: Set_cases split: if_splits)
  then obtain a b where s: "s = a @ CHR '':'' # b" and a: "CHR '':'' \<notin> set a" and b: "CHR '':'' \<notin> set b"
    using Split_two[of s "CHR '':''"] by blast
  have sp: "Split s (CHR '':'') = [a, b]" using s a b by (simp add: Split_one_sep)
  from ok sp have "is_uint8 a \<and> is_uint8 b"
    by (auto simp: Set_cases ParseUint_None[symmetric] split: if_splits)
  with s a b show "\<exists>a b. s = a @ CHR '':'' # b \<and> CHR '':'' \<notin> set a \<and> CHR '':'' \<notin> set b
        \<and> is_uint8 a \<and> is_uint8 b" by blast
next
  assume "\<exists>a b. s = a @ CHR '':'' # b \<and> CHR '':'' \<notin> set a \<and> CHR '':'' \<notin> set b
        \<and> is_uint8 a \<and> is_uint8 b"
  then obtain a b where s: "s = a @ CHR '':'' # b" and a: "CHR '':'' \<notin> set a" and b: "CHR '':'' \<notin> set b"
    and ua: "is_uint8 a" and ub: "is_uint8 b" by blast
  have sp: "Split s (CHR '':'') = [a, b]" using s a b by (simp add: Split_one_sep)
  show "fst (RatioValue_Set r s) = None"
    using ua ub by (simp add: Set_cases sp ParseUint_None)
qed

lemma Set_result:
  assumes s: "s = a @ CHR '':'' # b" and a: "CHR '':'' \<notin> set a" and b: "CHR '':'' \<notin> set b"
    and ua: "is_uint8 a" and ub: "is_uint8 b"
  shows "RatioValue_Set r s = (None, r\<lparr>Up := of_nat (decimal_value a), Down := of_nat (decimal_value b)\<rparr>)"
proof -
  have sp: "Split s (CHR '':'') = [a, b]" using s a b by (simp add: Split_one_sep)
  show ?thesis using ua ub
    by (simp add: Set_cases sp ParseUint_None ParseUint_value)
qed

lemma Set_error_kind: "fst (RatioValue_Set r s) = Some e \<Longrightarrow> is_FormatError e"
  by (auto simp: Set_cases ParseUint_error split: if_splits)

lemma unat_uint8: "is_uint8 t \<Longrightarrow> unat (of_nat (decimal_value t) :: 64 word) = decimal_value t"
  by (simp add: is_uint8_def unat_of_nat)

text \<open>Every ratio \<open>main\<close> can build has both sides between 1 and 255.\<close>

lemma Set_bounds:
  assumes "RatioValue_Set r s = (None, r')"
  shows "unat (Up r') \<le> 255 \<and> unat (Down r') \<le> 255"
proof -
  from assms have "fst (RatioValue_Set r s) = None" by simp
  then obtain a b where s: "s = a @ CHR '':'' # b" and a: "CHR '':'' \<notin> set a"
    and b: "CHR '':'' \<notin> set b" and ua: "is_uint8 a" and ub: "is_uint8 b"
    using Set_succeeds_iff [of r s] by blast
  from Set_result [OF s a b ua ub, of r] assms
  have "r' = r\<lparr>Up := of_nat (decimal_value a), Down := of_nat (decimal_value b)\<rparr>" by simp
  with ua ub show ?thesis by (simp add: unat_uint8) (simp add: is_uint8_def)
qed

lemma parse_ratio_flags_bounds:
  "unat (Up r) \<le> 255 \<and> unat (Down r) \<le> 255 \<Longrightarrow> parse_ratio_flags r vs = Inr r' \<Longrightarrow>
   unat (Up r') \<le> 255 \<and> unat (Down r') \<le> 255"
proof (induction vs arbitrary: r)
  case Nil
  then show ?case by simp
next
  case (Cons v vs)
  obtain e r1 where set: "RatioValue_Set r v = (e, r1)" by fastforce
  with Cons.prems (2) have e: "e = None" and rest: "parse_ratio_flags r1 vs = Inr r'"
    by (auto split: option.splits)
  from set e have "unat (Up r1) \<le> 255 \<and> unat (Down r1) \<le> 255" by (simp add: Set_bounds)
  from Cons.IH [OF this rest] show ?case .
qed

lemma main_ratio_bounds:
  assumes "main_ratio vs = Inr ratio"
  shows "1 \<le> unat (Up ratio) \<and> unat (Up ratio) \<le> 255
       \<and> 1 \<le> unat (Down ratio) \<and> unat (Down ratio) \<le> 255"
proof -
  from assms obtain r where p: "parse_ratio_flags zero_RatioValue vs = Inr r"
    and ratio: "ratio = resolve r"
    by (auto simp: main_ratio_def split: sum.splits)
  have "unat (Up zero_RatioValue) \<le> 255 \<and> unat (Down zero_RatioValue) \<le> 255"
    by (simp add: zero_RatioValue_def)
  from parse_ratio_flags_bounds [OF this p] have b: "unat (Up r) \<le> 255" "unat (Down r) \<le> 255"
    by simp_all
  show ?thesis
  proof (cases "isZero r")
    case True
    with ratio show ?thesis by (simp add: resolve_def)
  next
    case False
    then have "Up r \<noteq> 0" "Down r \<noteq> 0" by (simp_all add: isZero_def)
    then have "unat (Up r) \<noteq> 0" "unat (Down r) \<noteq> 0" by (simp_all add: unat_eq_0)
    with False ratio b show ?thesis by (simp add: resolve_def)
  qed
qed

lemma small_count: "unat (n :: 64 word) \<le> 255 \<Longrightarrow> unat n < 2 ^ 63"
proof -
  have "(255 :: nat) < 2 ^ 63" by simp
  moreover assume "unat n \<le> 255"
  ultimately show ?thesis by (rule le_less_trans [rotated])
qed

subsection \<open>Claims about the ratio\<close>

text \<open>
  C4. For every ratio \<open>r\<close>, the coercion of \<open>main\<close> yields \<open>{1, 1}\<close> when
  \<open>r.Up == 0\<close> or \<open>r.Down == 0\<close> and \<open>r\<close> itself otherwise. In particular the
  flag value \<open>"0:3"\<close> is parsed to \<open>{0, 3}\<close>, which the coercion turns into
  \<open>{1, 1}\<close> and \<open>String\<close> prints as \<open>"1:1"\<close>.
\<close>

theorem resolve_zero_coercion:
  "resolve r = (if Up r = 0 \<or> Down r = 0 then \<lparr>Up = 1, Down = 1\<rparr> else r)
   \<and> RatioValue_Set zero_RatioValue ''0:3'' = (None, \<lparr>Up = 0, Down = 3\<rparr>)
   \<and> resolve (snd (RatioValue_Set zero_RatioValue ''0:3'')) = \<lparr>Up = 1, Down = 1\<rparr>
   \<and> RatioValue_String (snd (RatioValue_Set zero_RatioValue ''0:3'')) = ''1:1''"
proof -
  have parsed: "RatioValue_Set zero_RatioValue ''0:3'' = (None, \<lparr>Up = 0, Down = 3\<rparr>)"
    by (simp add: RatioValue_Set_def ParseUint_def zero_RatioValue_def is_digit_def
        digit_val_def Let_def cutoff_def maxVal_def)
  have gen: "resolve r = (if Up r = 0 \<or> Down r = 0 then \<lparr>Up = 1, Down = 1\<rparr> else r)"
    by (simp add: resolve_def isZero_def)
  show ?thesis
    using gen by (simp add: parsed resolve_def isZero_def RatioValue_String_def)
qed

text \<open>
  C7. \<open>Set\<close> returns an error exactly when its argument is not of the form
  \<open>a:b\<close> with one single colon and \<open>a\<close>, \<open>b\<close> unsigned decimal integers in the
  range 0 to 255; every error it returns is a format error; and when it succeeds \<open>Up\<close>
  and \<open>Down\<close> are the values of the two tokens.
\<close>

theorem Set_fails_iff_malformed:
  "(fst (RatioValue_Set r s) \<noteq> None) =
     (\<not> (\<exists>a b. s = a @ CHR '':'' # b \<and> CHR '':'' \<notin> set a \<and> CHR '':'' \<notin> set b
            \<and> is_uint8 a \<and> is_uint8 b))
   \<and> (\<forall>e. fst (RatioValue_Set r s) = Some e \<longrightarrow> is_FormatError e)
   \<and> (\<forall>a b. s = a @ CHR '':'' # b \<and> is_uint8 a \<and> is_uint8 b \<longrightarrow>
         fst (RatioValue_Set r s) = None
         \<and> unat (Up (snd (RatioValue_Set r s))) = decimal_value a
         \<and> unat (Down (snd (RatioValue_Set r s))) = decimal_value b)"
proof (intro conjI allI impI)
  show "(fst (RatioValue_Set r s) \<noteq> None) =
     (\<not> (\<exists>a b. s = a @ CHR '':'' # b \<and> CHR '':'' \<notin> set a \<and> CHR '':'' \<notin> set b
            \<and> is_uint8 a \<and> is_uint8 b))"
    using Set_succeeds_iff [of r s] by simp
next
  fix e assume "fst (RatioValue_Set r s) = Some e"
  then show "is_FormatError e" by (rule Set_error_kind)
next
  fix a b assume h: "s = a @ CHR '':'' # b \<and> is_uint8 a \<and> is_uint8 b"
  then have res: "RatioValue_Set r s =
      (None, r\<lparr>Up := of_nat (decimal_value a), Down := of_nat (decimal_value b)\<rparr>)"
    by (intro Set_result) (simp_all add: is_uint8_no_sep)
  from h have ua: "is_uint8 a" and ub: "is_uint8 b" by simp_all
  show "fst (RatioValue_Set r s) = None" by (simp add: res)
  show "unat (Up (snd (RatioValue_Set r s))) = decimal_value a"
    by (simp add: res unat_uint8 [OF ua])
  show "unat (Down (snd (RatioValue_Set r s))) = decimal_value b"
    by (simp add: res unat_uint8 [OF ub])
qed

theorem Set_fails_iff_malformed_witness:
  "fst (RatioValue_Set zero_RatioValue ''12:7'') = None
   \<and> unat (Up (snd (RatioValue_Set zero_RatioValue ''12:7''))) = 12
   \<and> unat (Down (snd (RatioValue_Set zero_RatioValue ''12:7''))) = 7
   \<and> fst (RatioValue_Set zero_RatioValue ''1:2:3'') = Some WrongFormat
   \<and> is_FormatError WrongFormat"
proof -
  have a: "is_uint8 ''12''" and b: "is_uint8 ''7''"
    by (simp_all add: is_uint8_def is_digit_def decimal_value_def digit_val_def)
  have v: "decimal_value ''12'' = 12" "decimal_value ''7'' = 7"
    by (simp_all add: decimal_value_def digit_val_def)
  have s: "''12:7'' = ''12'' @ CHR '':'' # ''7''" by simp
  have bad: "fst (RatioValue_Set zero_RatioValue ''1:2:3'') = Some WrongFormat"
    by (simp add: RatioValue_Set_def)
  from Set_fails_iff_malformed [of zero_RatioValue "''12:7''"] a b s
  have "fst (RatioValue_Set zero_RatioValue ''12:7'') = None
     \<and> unat (Up (snd (RatioValue_Set zero_RatioValue ''12:7''))) = decimal_value ''12''
     \<and> unat (Down (snd (RatioValue_Set zero_RatioValue ''12:7''))) = decimal_value ''7''"
    by blast
  moreover from Set_fails_iff_malformed [of zero_RatioValue "''1:2:3''"] bad
  have "is_FormatError WrongFormat" by blast
  ultimately show ?thesis using bad by (simp add: v)
qed

text \<open>
  C9. \<open>Set\<close> is atomic on failure: whenever it returns an error, the receiver is left
  as it was, also when the first token parses and only the second one fails (both
  fields are assigned after both tokens have parsed).
\<close>

theorem Set_error_leaves_receiver:
  "fst (RatioValue_Set r s) \<noteq> None \<Longrightarrow> snd (RatioValue_Set r s) = r"
  by (auto simp: Set_cases split: if_splits)

theorem Set_error_leaves_receiver_witness:
  "snd (ParseUint ''5'') = None
   \<and> fst (RatioValue_Set \<lparr>Up = 3, Down = 4\<rparr> ''5:x'') = Some (NumError ''x'' ErrSyntax)
   \<and> snd (RatioValue_Set \<lparr>Up = 3, Down = 4\<rparr> ''5:x'') = \<lparr>Up = 3, Down = 4\<rparr>"
proof -
  have first: "snd (ParseUint ''5'') = None"
    by (simp add: ParseUint_def is_digit_def digit_val_def Let_def cutoff_def maxVal_def)
  have err: "fst (RatioValue_Set \<lparr>Up = 3, Down = 4\<rparr> ''5:x'') = Some (NumError ''x'' ErrSyntax)"
    by (simp add: RatioValue_Set_def ParseUint_def is_digit_def digit_val_def Let_def
        cutoff_def maxVal_def)
  then have "fst (RatioValue_Set \<lparr>Up = 3, Down = 4\<rparr> ''5:x'') \<noteq> None" by simp
  from Set_error_leaves_receiver [OF this] first err show ?thesis by simp
qed

subsection \<open>Effects of the client calls, the log and the generator\<close>

lemma invoke_eq:
  "invoke c f s = (r, s') \<longleftrightarrow> (\<exists>w. f (world s) = (r, w) \<and> s' = s\<lparr>world := w, calls := calls s @ [c]\<rparr>)"
  by (auto simp: invoke_def split: prod.splits)

lemma log_sel [simp]:
  "world (log l fs m s) = world s" "rng (log l fs m s) = rng s"
  "calls (log l fs m s) = calls s" "draws (log l fs m s) = draws s"
  by (simp_all add: log_def)

lemma foldl_log_sel [simp]:
  "world (foldl (\<lambda>t x. log l (fs x) (m x) t) s xs) = world s"
  "rng (foldl (\<lambda>t x. log l (fs x) (m x) t) s xs) = rng s"
  "calls (foldl (\<lambda>t x. log l (fs x) (m x) t) s xs) = calls s"
  "draws (foldl (\<lambda>t x. log l (fs x) (m x) t) s xs) = draws s"
  by (induction xs arbitrary: s) simp_all

lemma drawn_0 [simp]: "drawn cs g 0 = []" "drawn_pairs cs g 0 = []"
  by (simp_all add: drawn_def drawn_pairs_def)

lemma drawn_Suc:
  "drawn cs g (Suc m) = cs ! (g 0 mod length cs) # drawn cs (\<lambda>q. g (Suc q)) m"
  "drawn_pairs cs g (Suc m) =
     (int (length cs), int (g 0 mod length cs)) # drawn_pairs cs (\<lambda>q. g (Suc q)) m"
  unfolding drawn_def drawn_pairs_def by (simp_all only: map_upt_Suc)

lemma Intn_pos:
  "0 < L \<Longrightarrow> Intn (int L) s =
     (Inr (int (rng s 0 mod L)), s\<lparr>rng := (\<lambda>k. rng s (Suc k)), draws := draws s @ [(int L, int (rng s 0 mod L))]\<rparr>)"
  by (simp add: Intn_def Let_def zmod_int)

lemma index_mod: "xs \<noteq> [] \<Longrightarrow> index xs (int (x mod length xs)) = Inr (xs ! (x mod length xs))"
  by (simp add: index_def)

lemma deleteContainer_body_run:
  assumes ne: "candidates \<noteq> []"
    and run: "deleteContainer_body client candidates s = (q, s')"
  shows "rng s' = (\<lambda>k. rng s (Suc k))
     \<and> draws s' = draws s @ drawn_pairs candidates (rng s) 1
     \<and> calls s' = calls s @ take (length (calls s') - length (calls s))
                               (teardown (candidates ! (rng s 0 mod length candidates)))
     \<and> (q = None \<longrightarrow> calls s' = calls s @ teardown (candidates ! (rng s 0 mod length candidates)))
     \<and> (\<forall>msg. q \<noteq> Some (Panic msg))
     \<and> q \<noteq> Some (Return None)
     \<and> (\<forall>e. q = Some (Return (Some e)) \<longrightarrow> is_DriverError e)"
proof -
  have L: "0 < length candidates" using ne by simp
  show ?thesis
    using run
    by (auto simp: deleteContainer_body_def Intn_pos [OF L] index_mod [OF ne] invoke_eq
          drawn_Suc teardown_def
        split: prod.splits option.splits bool.splits)
qed


lemma unat_succ: "(i :: 64 word) < n \<Longrightarrow> unat (i + 1) = Suc (unat i)"
  by unat_arith

lemma teardown_length [simp]: "length (teardown c) = 3"
  by (simp add: teardown_def)

lemma deleteContainer_loop_run:
  assumes ne: "candidates \<noteq> []"
    and run: "deleteContainer_loop client candidates n i s = (r, s')"
  shows "\<exists>m k. m \<le> unat n - unat i
      \<and> rng s' = (\<lambda>q. rng s (q + m))
      \<and> draws s' = draws s @ drawn_pairs candidates (rng s) m
      \<and> calls s' = calls s @ take k (concat (map teardown (drawn candidates (rng s) m)))
      \<and> (r = Return None \<longrightarrow> m = unat n - unat i \<and> k = 3 * m)
      \<and> (\<forall>msg. r \<noteq> Panic msg)
      \<and> (\<forall>e. r = Return (Some e) \<longrightarrow> is_DriverError e)"
  using ne run
proof (induction client candidates n i s arbitrary: r s' rule: deleteContainer_loop.induct)
  case (1 client candidates n i s)
  note ne = "1.prems" (1) and run = "1.prems" (2)
  show ?case
  proof (cases "i < n")
    case False
    then have "unat n - unat i = 0" by (simp add: word_less_nat_alt)
    moreover from False run have "r = Return None" "s' = s"
      by (simp_all add: deleteContainer_loop.simps)
    ultimately show ?thesis
      by (intro exI [of _ 0]) simp
  next
    case True
    obtain q s1 where body: "deleteContainer_body client candidates s = (q, s1)"
      by fastforce
    note B = deleteContainer_body_run [OF ne body]
    let ?c = "candidates ! (rng s 0 mod length candidates)"
    have one: "1 \<le> unat n - unat i" using True by (simp add: word_less_nat_alt)
    show ?thesis
    proof (cases q)
      case (Some ended)
      with True body run have r: "r = ended" and s': "s' = s1"
        by (simp_all add: deleteContainer_loop.simps)
      have "drawn candidates (rng s) 1 = [?c]" by (simp add: drawn_Suc)
      with B Some r s' one show ?thesis
        by (intro exI [of _ 1] exI [of _ "length (calls s1) - length (calls s)"]) auto
    next
      case None
      with True body run have rec: "deleteContainer_loop client candidates n (i + 1) s1 = (r, s')"
        by (simp add: deleteContainer_loop.simps)
      from "1.IH" [OF True body [symmetric] None ne rec]
      obtain m k where m: "m \<le> unat n - unat (i + 1)"
        and g: "rng s' = (\<lambda>q. rng s1 (q + m))"
        and d: "draws s' = draws s1 @ drawn_pairs candidates (rng s1) m"
        and c: "calls s' = calls s1 @ take k (concat (map teardown (drawn candidates (rng s1) m)))"
        and ok: "r = Return None \<longrightarrow> m = unat n - unat (i + 1) \<and> k = 3 * m"
        and np: "\<forall>msg. r \<noteq> Panic msg"
        and de: "\<forall>e. r = Return (Some e) \<longrightarrow> is_DriverError e"
        by blast
      from B None have g1: "rng s1 = (\<lambda>k. rng s (Suc k))"
        and d1: "draws s1 = draws s @ drawn_pairs candidates (rng s) 1"
        and c1: "calls s1 = calls s @ teardown ?c"
        by blast+
      have u: "unat (i + 1) = Suc (unat i)" using True by (rule unat_succ)
      have "Suc m \<le> unat n - unat i" using m u one True by (simp add: word_less_nat_alt)
      moreover have "rng s' = (\<lambda>q. rng s (q + Suc m))" by (simp add: g g1)
      moreover have "draws s' = draws s @ drawn_pairs candidates (rng s) (Suc m)"
        by (simp add: d d1 g1 drawn_Suc)
      moreover have "calls s' = calls s @ take (3 + k) (concat (map teardown (drawn candidates (rng s) (Suc m))))"
        by (simp add: c c1 g1 drawn_Suc)
      moreover have "r = Return None \<longrightarrow> Suc m = unat n - unat i \<and> 3 + k = 3 * Suc m"
        using ok u one by auto
      ultimately show ?thesis using np de by blast
    qed
  qed
qed

text \<open>The same runs, read against the answers of the client.\<close>

lemma deleteContainer_body_answers:
  assumes ne: "candidates \<noteq> []"
    and run: "deleteContainer_body client candidates s = (q, s')"
  shows "rng s' = (\<lambda>k. rng s (Suc k))
     \<and> draws s' = draws s @ drawn_pairs candidates (rng s) 1
     \<and> ((\<exists>cs. q \<noteq> None
              \<and> teardown_fails client (world s) (candidates ! (rng s 0 mod length candidates))
                    (the q) cs (world s')
              \<and> calls s' = calls s @ cs)
        \<or> (q = None
            \<and> torn_down client (world s) [candidates ! (rng s 0 mod length candidates)] (world s')
            \<and> calls s' = calls s @ teardown (candidates ! (rng s 0 mod length candidates))))"
proof -
  have L: "0 < length candidates" using ne by simp
  show ?thesis
    using run
    by (auto simp: deleteContainer_body_def Intn_pos [OF L] index_mod [OF ne] invoke_eq
          drawn_Suc teardown_def teardown_fails_def
        split: prod.splits option.splits bool.splits)
qed

lemma torn_down_Cons:
  "torn_down client w [v] w1 \<Longrightarrow> torn_down client w1 vs w2 \<Longrightarrow> torn_down client w (v # vs) w2"
  by (auto split: prod.splits option.splits bool.splits)

lemma deleteContainer_loop_answers:
  assumes ne: "candidates \<noteq> []"
    and run: "deleteContainer_loop client candidates n i s = (r, s')"
  shows "\<exists>m wk. m \<le> unat n - unat i
      \<and> torn_down client (world s) (drawn candidates (rng s) m) wk
      \<and> (m = unat n - unat i \<and> r = Return None \<and> world s' = wk
           \<and> rng s' = (\<lambda>q. rng s (q + m))
           \<and> draws s' = draws s @ drawn_pairs candidates (rng s) m
           \<and> calls s' = calls s @ concat (map teardown (drawn candidates (rng s) m))
         \<or> m < unat n - unat i
           \<and> (\<exists>cs. teardown_fails client wk (candidates ! (rng s m mod length candidates))
                      r cs (world s')
                 \<and> rng s' = (\<lambda>q. rng s (q + Suc m))
                 \<and> draws s' = draws s @ drawn_pairs candidates (rng s) (Suc m)
                 \<and> calls s' = calls s @ concat (map teardown (drawn candidates (rng s) m)) @ cs))"
  using ne run
proof (induction client candidates n i s arbitrary: r s' rule: deleteContainer_loop.induct)
  case (1 client candidates n i s)
  note ne = "1.prems" (1) and run = "1.prems" (2)
  let ?v = "candidates ! (rng s 0 mod length candidates)"
  show ?case
  proof (cases "i < n")
    case False
    then have "unat n - unat i = 0" by (simp add: word_less_nat_alt)
    moreover from False run have "r = Return None" "s' = s"
      by (simp_all add: deleteContainer_loop.simps)
    ultimately show ?thesis
      by (intro exI [of _ 0] exI [of _ "world s"]) simp
  next
    case True
    obtain q s1 where body: "deleteContainer_body client candidates s = (q, s1)"
      by fastforce
    note B = deleteContainer_body_answers [OF ne body]
    have one: "0 < unat n - unat i" using True by (simp add: word_less_nat_alt)
    have u: "unat (i + 1) = Suc (unat i)" using True by (rule unat_succ)
    from B have g1: "rng s1 = (\<lambda>k. rng s (Suc k))"
      and d1: "draws s1 = draws s @ drawn_pairs candidates (rng s) 1" by simp_all
    show ?thesis
    proof (cases q)
      case (Some ended)
      with True body run have r: "r = ended" and s': "s' = s1"
        by (simp_all add: deleteContainer_loop.simps)
      from B Some obtain cs where f: "teardown_fails client (world s) ?v ended cs (world s1)"
        and c1: "calls s1 = calls s @ cs" by auto
      from f c1 g1 d1 r s' one show ?thesis
        by (intro exI [of _ 0] exI [of _ "world s"] conjI disjI2 exI [of _ cs]) simp_all
    next
      case None
      with True body run have rec: "deleteContainer_loop client candidates n (i + 1) s1 = (r, s')"
        by (simp add: deleteContainer_loop.simps)
      from B None have t1: "torn_down client (world s) [?v] (world s1)"
        and c1: "calls s1 = calls s @ teardown ?v" by simp_all
      from "1.IH" [OF True body [symmetric] None ne rec]
      obtain m wk where m: "m \<le> unat n - unat (i + 1)"
        and td: "torn_down client (world s1) (drawn candidates (rng s1) m) wk"
        and fin: "m = unat n - unat (i + 1) \<and> r = Return None \<and> world s' = wk
           \<and> rng s' = (\<lambda>q. rng s1 (q + m))
           \<and> draws s' = draws s1 @ drawn_pairs candidates (rng s1) m
           \<and> calls s' = calls s1 @ concat (map teardown (drawn candidates (rng s1) m))
         \<or> m < unat n - unat (i + 1)
           \<and> (\<exists>cs. teardown_fails client wk (candidates ! (rng s1 m mod length candidates))
                      r cs (world s')
                 \<and> rng s' = (\<lambda>q. rng s1 (q + Suc m))
                 \<and> draws s' = draws s1 @ drawn_pairs candidates (rng s1) (Suc m)
                 \<and> calls s' = calls s1 @ concat (map teardown (drawn candidates (rng s1) m)) @ cs)"
        by blast
      have dr: "drawn candidates (rng s) (Suc m) = ?v # drawn candidates (rng s1) m"
        by (simp add: drawn_Suc g1)
      have td': "torn_down client (world s) (drawn candidates (rng s) (Suc m)) wk"
        unfolding dr using t1 td by (rule torn_down_Cons)
      have m': "Suc m \<le> unat n - unat i" using m u one by simp
      have fin': "Suc m = unat n - unat i \<and> r = Return None \<and> world s' = wk
           \<and> rng s' = (\<lambda>q. rng s (q + Suc m))
           \<and> draws s' = draws s @ drawn_pairs candidates (rng s) (Suc m)
           \<and> calls s' = calls s @ concat (map teardown (drawn candidates (rng s) (Suc m)))
         \<or> Suc m < unat n - unat i
           \<and> (\<exists>cs. teardown_fails client wk (candidates ! (rng s (Suc m) mod length candidates))
                      r cs (world s')
                 \<and> rng s' = (\<lambda>q. rng s (q + Suc (Suc m)))
                 \<and> draws s' = draws s @ drawn_pairs candidates (rng s) (Suc (Suc m))
                 \<and> calls s' = calls s @ concat (map teardown (drawn candidates (rng s) (Suc m))) @ cs)"
        using fin u one
        by (auto simp: g1 d1 c1 dr drawn_Suc)
      from m' td' fin' show ?thesis
        by - (rule exI [of _ "Suc m"], rule exI [of _ wk], intro conjI, assumption+)
    qed
  qed
qed

lemma teardown_fails_iff:
  "teardown_fails client w v r cs w' \<longleftrightarrow>
     (\<exists>e. ContainerStop client (ID v) w = (Some e, w')
          \<and> r = Return (Some (CouldNotStop (ID v) e)) \<and> cs = [StopCall (ID v)])
   \<or> (\<exists>w1. ContainerStop client (ID v) w = (None, w1)
          \<and> ContainerWait client (ID v) w1 = (False, w')
          \<and> r = Blocked \<and> cs = [StopCall (ID v), WaitCall (ID v)])
   \<or> (\<exists>w1 w2 e. ContainerStop client (ID v) w = (None, w1)
          \<and> ContainerWait client (ID v) w1 = (True, w2)
          \<and> ContainerRemove client (ID v) w2 = (Some e, w')
          \<and> r = Return (Some (CouldNotRemove (ID v) e))
          \<and> cs = [StopCall (ID v), WaitCall (ID v), RemoveCall (ID v)])"
proof -
  obtain x w1 where st: "ContainerStop client (ID v) w = (x, w1)" by fastforce
  show ?thesis
  proof (cases x)
    case (Some e)
    with st show ?thesis by (auto simp: teardown_fails_def)
  next
    case None
    obtain y w2 where wt: "ContainerWait client (ID v) w1 = (y, w2)" by fastforce
    show ?thesis
    proof (cases y)
      case False
      with st None wt show ?thesis by (auto simp: teardown_fails_def)
    next
      case True
      obtain z w3 where rm: "ContainerRemove client (ID v) w2 = (z, w3)" by fastforce
      show ?thesis
      proof (cases z)
        case None
        with st \<open>x = None\<close> wt True rm show ?thesis by (simp add: teardown_fails_def)
      next
        case (Some e)
        with st \<open>x = None\<close> wt True rm show ?thesis by (auto simp: teardown_fails_def)
      qed
    qed
  qed
qed

subsection \<open>The run of copyContainer\<close>

lemma replicas_simps [simp]:
  "replicas cc hc nc [] = []"
  "replicas cc hc nc (b # bs) = CreateCall cc hc nc # StartCall (CreatedID b) # replicas cc hc nc bs"
  by (simp_all add: replicas_def)

lemma copyContainer_body_answers:
  assumes run: "copyContainer_body client cc hc nc s = (q, s')"
  shows "rng s' = rng s \<and> draws s' = draws s
     \<and> ((\<exists>e w1. ContainerCreate client cc hc nc (world s) = (Inl e, w1)
            \<and> q = Some (CouldNotCreate e) \<and> calls s' = calls s @ [CreateCall cc hc nc]
            \<and> world s' = w1)
        \<or> (\<exists>b w1 e w2. ContainerCreate client cc hc nc (world s) = (Inr b, w1)
            \<and> ContainerStart client (CreatedID b) w1 = (Some e, w2)
            \<and> q = Some (CouldNotStart (CreatedID b) e)
            \<and> calls s' = calls s @ [CreateCall cc hc nc, StartCall (CreatedID b)]
            \<and> world s' = w2)
        \<or> (\<exists>b w1 w2. ContainerCreate client cc hc nc (world s) = (Inr b, w1)
            \<and> ContainerStart client (CreatedID b) w1 = (None, w2)
            \<and> q = None
            \<and> calls s' = calls s @ [CreateCall cc hc nc, StartCall (CreatedID b)]
            \<and> world s' = w2))"
  using run
  by (auto simp: copyContainer_body_def invoke_eq Let_def
      split: prod.splits sum.splits option.splits)

lemma copyContainer_loop_answers:
  assumes run: "copyContainer_loop client cc hc nc n i s = (r, s')"
  shows "rng s' = rng s \<and> draws s' = draws s
     \<and> (\<exists>bodies wk.
           length bodies \<le> unat n - unat i
         \<and> copies_done client cc hc nc (world s) bodies wk
         \<and> (length bodies = unat n - unat i \<and> r = None \<and> world s' = wk
              \<and> calls s' = calls s @ replicas cc hc nc bodies
            \<or> length bodies < unat n - unat i
              \<and> (\<exists>cs. copy_fails client cc hc nc wk r cs (world s')
                    \<and> calls s' = calls s @ replicas cc hc nc bodies @ cs)))"
  using run
proof (induction client cc hc nc n i s arbitrary: r s' rule: copyContainer_loop.induct)
  case (1 client cc hc nc n i s)
  note run = "1.prems"
  show ?case
  proof (cases "i < n")
    case False
    then have z: "unat n - unat i = 0" by (simp add: word_less_nat_alt)
    from False run have "r = None" "s' = s"
      by (simp_all add: copyContainer_loop.simps)
    with z show ?thesis
      by (intro conjI exI [of _ "[]"] exI [of _ "world s"]) simp_all
  next
    case True
    obtain q s1 where body: "copyContainer_body client cc hc nc s = (q, s1)"
      by fastforce
    note B = copyContainer_body_answers [OF body]
    have one: "0 < unat n - unat i" using True by (simp add: word_less_nat_alt)
    have u: "unat (i + 1) = Suc (unat i)" using True by (rule unat_succ)
    show ?thesis
    proof (cases q)
      case (Some err)
      with True body run have r: "r = Some err" and s': "s' = s1"
        by (simp_all add: copyContainer_loop.simps)
      from B Some have "\<exists>cs. copy_fails client cc hc nc (world s) (Some err) cs (world s1)
          \<and> calls s1 = calls s @ cs"
        by (elim conjE disjE exE) (simp_all add: copy_fails_def)
      then obtain cs where "copy_fails client cc hc nc (world s) (Some err) cs (world s1)"
        and "calls s1 = calls s @ cs"
        by blast
      with B r s' one show ?thesis
        by (intro conjI exI [of _ "[]"] exI [of _ "world s"] disjI2 exI [of _ cs]) simp_all
    next
      case None
      with True body run have rec: "copyContainer_loop client cc hc nc n (i + 1) s1 = (r, s')"
        by (simp add: copyContainer_loop.simps)
      from B None obtain b w1 where cr: "ContainerCreate client cc hc nc (world s) = (Inr b, w1)"
        and st: "ContainerStart client (CreatedID b) w1 = (None, world s1)"
        and c1: "calls s1 = calls s @ [CreateCall cc hc nc, StartCall (CreatedID b)]"
        and g1: "rng s1 = rng s" and d1: "draws s1 = draws s"
        by auto
      from "1.IH" [OF True body [symmetric] None rec]
      obtain bodies wk where g: "rng s' = rng s1" and d: "draws s' = draws s1"
        and len: "length bodies \<le> unat n - unat (i + 1)"
        and cd: "copies_done client cc hc nc (world s1) bodies wk"
        and fin: "length bodies = unat n - unat (i + 1) \<and> r = None \<and> world s' = wk
              \<and> calls s' = calls s1 @ replicas cc hc nc bodies
            \<or> length bodies < unat n - unat (i + 1)
              \<and> (\<exists>cs. copy_fails client cc hc nc wk r cs (world s')
                    \<and> calls s' = calls s1 @ replicas cc hc nc bodies @ cs)"
        by blast
      have cd': "copies_done client cc hc nc (world s) (b # bodies) wk"
        using cr st cd by simp
      have len': "length (b # bodies) \<le> unat n - unat i" using len u one by simp
      have fin': "length (b # bodies) = unat n - unat i \<and> r = None \<and> world s' = wk
              \<and> calls s' = calls s @ replicas cc hc nc (b # bodies)
            \<or> length (b # bodies) < unat n - unat i
              \<and> (\<exists>cs. copy_fails client cc hc nc wk r cs (world s')
                    \<and> calls s' = calls s @ replicas cc hc nc (b # bodies) @ cs)"
        using fin u one c1 by auto
      from g d g1 d1 len' cd' fin' show ?thesis
        by - (intro conjI exI [of _ "b # bodies"] exI [of _ wk], simp_all)
    qed
  qed
qed

lemma copy_fails_iff:
  "copy_fails client cc hc nc w r cs w' \<longleftrightarrow>
     (\<exists>e. ContainerCreate client cc hc nc w = (Inl e, w')
          \<and> r = Some (CouldNotCreate e) \<and> cs = [CreateCall cc hc nc])
   \<or> (\<exists>b w1 e. ContainerCreate client cc hc nc w = (Inr b, w1)
          \<and> ContainerStart client (CreatedID b) w1 = (Some e, w')
          \<and> r = Some (CouldNotStart (CreatedID b) e)
          \<and> cs = [CreateCall cc hc nc, StartCall (CreatedID b)])"
proof -
  obtain x w1 where cr: "ContainerCreate client cc hc nc w = (x, w1)" by fastforce
  show ?thesis
  proof (cases x)
    case (Inl e)
    with cr show ?thesis by (auto simp: copy_fails_def)
  next
    case (Inr b)
    obtain y w2 where st: "ContainerStart client (CreatedID b) w1 = (y, w2)" by fastforce
    show ?thesis
    proof (cases y)
      case None
      with cr Inr st show ?thesis by (simp add: copy_fails_def)
    next
      case (Some e)
      with cr Inr st show ?thesis by (auto simp: copy_fails_def)
    qed
  qed
qed

lemma copy_fails_DriverError:
  "copy_fails client cc hc nc w (Some e) cs w' \<Longrightarrow> is_DriverError e"
  by (auto simp: copy_fails_iff)

subsection \<open>The runs of deleteContainer and the selection of job\<close>

lemma foldl_select:
  "foldl (\<lambda>candidates container. if P container then candidates @ [container] else candidates) acc cs
     = acc @ filter P cs"
  by (induction cs arbitrary: acc) simp_all

lemma job_candidates_filter: "job_candidates img containers = filter (\<lambda>c. Image c = img) containers"
  by (simp add: job_candidates_def foldl_select)

lemma drawn_in_pool: "cs \<noteq> [] \<Longrightarrow> set (drawn cs g m) \<subseteq> set cs"
  by (auto simp: drawn_def)

text \<open>
  Every sequence of indices into the pool is drawn by some generator, the repeated ones
  included.
\<close>

lemma drawn_any_sequence:
  "\<forall>j \<in> set js. j < length cs \<Longrightarrow> drawn cs (\<lambda>q. js ! q) (length js) = map (\<lambda>j. cs ! j) js"
  by (auto simp: drawn_def intro!: nth_equalityI)

text \<open>
  Indexing the pool is one-to-one between the sequences of drawn indices and the
  sequences of victims when the pool has no duplicate: two sequences of in-range
  indices that pick the same victims are equal, and every sequence of containers of the
  pool is picked by one. So the victims are distributed over the pool as the results of
  \<open>rand.Intn\<close> are distributed over the indices.
\<close>

lemma victims_determine_draws:
  assumes d: "distinct cs"
    and a: "\<forall>j \<in> set js. j < length cs" and b: "\<forall>j \<in> set ks. j < length cs"
    and e: "map (\<lambda>j. cs ! j) js = map (\<lambda>j. cs ! j) ks"
  shows "js = ks"
proof (rule nth_equalityI)
  from e have "length (map (\<lambda>j. cs ! j) js) = length (map (\<lambda>j. cs ! j) ks)" by simp
  then show len: "length js = length ks" by simp
  fix i assume i: "i < length js"
  with len have i': "i < length ks" by simp
  from e have "map (\<lambda>j. cs ! j) js ! i = map (\<lambda>j. cs ! j) ks ! i" by simp
  with i i' have "cs ! (js ! i) = cs ! (ks ! i)" by simp
  moreover from a i have "js ! i < length cs" by simp
  moreover from b i' have "ks ! i < length cs" by simp
  ultimately show "js ! i = ks ! i" using d by (simp add: nth_eq_iff_index_eq)
qed

lemma victims_cover_pool:
  "set vs \<subseteq> set cs \<Longrightarrow> \<exists>js. (\<forall>j \<in> set js. j < length cs) \<and> map (\<lambda>j. cs ! j) js = vs"
proof (induction vs)
  case Nil
  then show ?case by simp
next
  case (Cons v vs)
  then obtain js where js: "\<forall>j \<in> set js. j < length cs" "map (\<lambda>j. cs ! j) js = vs" by auto
  from Cons.prems obtain j where "j < length cs" "cs ! j = v" by (auto simp: in_set_conv_nth)
  with js have "(\<forall>i \<in> set (j # js). i < length cs) \<and> map (\<lambda>j. cs ! j) (j # js) = v # vs" by simp
  then show ?case by (rule exI [of _ "j # js"])
qed

lemma deleteContainer_zero: "deleteContainer client candidates 0 s = (Return None, s)"
  by (simp add: deleteContainer_def deleteContainer_loop.simps)

lemma deleteContainer_insufficient:
  "int (length candidates) < sint n \<Longrightarrow>
   deleteContainer client candidates n s = (Return (Some (CanNotDelete n (int (length candidates)))), s)"
  by (simp add: deleteContainer_def)

lemma uint_small: "unat (n :: 64 word) < 2 ^ 63 \<Longrightarrow> uint n < 2 ^ 63"
  by (metis of_nat_less_iff of_nat_numeral of_nat_power of_nat_unat)

lemma sint_small: "unat (n :: 64 word) < 2 ^ 63 \<Longrightarrow> sint n = int (unat n)"
proof -
  assume "unat n < 2 ^ 63"
  then have "uint n < 2 ^ 63" by (rule uint_small)
  moreover have "- (2 ^ 63) \<le> uint n"
    by (rule order_trans [of _ 0]) simp_all
  ultimately have "signed_take_bit 63 (uint n) = uint n"
    by (intro signed_take_bit_int_eq_self)
  then show ?thesis by (simp add: sint_uint)
qed

lemma sint_le_unat: "sint (n :: 64 word) \<le> int (unat n)"
proof (cases "unat n < 2 ^ 63")
  case True
  then show ?thesis by (simp only: sint_small)
next
  case False
  then have "(2 :: nat) ^ 63 \<le> unat n" by (simp only: not_less)
  then have "int (2 ^ 63) \<le> int (unat n)" by (simp only: of_nat_le_iff)
  moreover have "sint n < 2 ^ 63" using sint_lt [of n] by simp
  ultimately show ?thesis by simp
qed

lemma copyContainer_zero:
  "copyContainer client c 0 s =
     (case ContainerInspect client (ID c) (world s) of
        (Inl e, w) \<Rightarrow> (Some (CouldNotInspect (ID c) e), s\<lparr>world := w, calls := calls s @ [InspectCall (ID c)]\<rparr>)
      | (Inr infos, w) \<Rightarrow> (None, s\<lparr>world := w, calls := calls s @ [InspectCall (ID c)]\<rparr>))"
  by (simp add: copyContainer_def invoke_def copyContainer_loop.simps split: prod.splits sum.splits)


lemma deleteContainer_run:
  assumes le: "unat n \<le> length candidates"
    and run: "deleteContainer client candidates n s = (r, s')"
  shows "\<exists>m k. m \<le> unat n
      \<and> draws s' = draws s @ drawn_pairs candidates (rng s) m
      \<and> calls s' = calls s @ take k (concat (map teardown (drawn candidates (rng s) m)))
      \<and> (r = Return None \<longrightarrow> m = unat n \<and> k = 3 * m)
      \<and> (\<forall>msg. r \<noteq> Panic msg)
      \<and> (\<forall>e. r = Return (Some e) \<longrightarrow> is_DriverError e)"
proof -
  have "sint n \<le> int (unat n)" by (rule sint_le_unat)
  moreover from le have "int (unat n) \<le> int (length candidates)" by (simp only: of_nat_le_iff)
  ultimately have pass: "\<not> int (length candidates) < sint n" by linarith
  show ?thesis
  proof (cases "candidates = []")
    case True
    with le have "n = 0" by (simp add: unat_eq_0)
    with run have "r = Return None" "s' = s" by (simp_all add: deleteContainer_zero)
    then show ?thesis using \<open>n = 0\<close> by (intro exI [of _ 0]) simp
  next
    case False
    from run pass have "deleteContainer_loop client candidates n 0 s = (r, s')"
      by (simp add: deleteContainer_def)
    from deleteContainer_loop_run [OF False this] show ?thesis by (simp) blast
  qed
qed

subsection \<open>The runs of job\<close>

lemma deleteContainer_calls:
  assumes ne: "candidates \<noteq> []"
    and run: "deleteContainer client candidates n s = (r, s')"
  shows "\<exists>xs. calls s' = calls s @ xs \<and> (\<forall>c \<in> set xs. \<exists>x \<in> set candidates. c \<in> set (teardown x))"
proof (cases "int (length candidates) < sint n")
  case True
  with run have "s' = s" by (simp add: deleteContainer_def)
  then show ?thesis by simp
next
  case False
  with run have "deleteContainer_loop client candidates n 0 s = (r, s')"
    by (simp add: deleteContainer_def)
  from deleteContainer_loop_run [OF ne this]
  obtain m k where c: "calls s' = calls s @ take k (concat (map teardown (drawn candidates (rng s) m)))"
    by blast
  have "\<forall>c \<in> set (take k (concat (map teardown (drawn candidates (rng s) m)))).
          \<exists>x \<in> set candidates. c \<in> set (teardown x)"
  proof
    fix c assume "c \<in> set (take k (concat (map teardown (drawn candidates (rng s) m))))"
    then have "c \<in> set (concat (map teardown (drawn candidates (rng s) m)))"
      by (rule in_set_takeD)
    then obtain x where "x \<in> set (drawn candidates (rng s) m)" "c \<in> set (teardown x)"
      by auto
    with drawn_in_pool [OF ne] show "\<exists>x \<in> set candidates. c \<in> set (teardown x)"
      by blast
  qed
  with c show ?thesis by blast
qed

lemma outcome_passed:
  "(case p of (Return (Some err), s5) \<Rightarrow> (Return (Some err), s5) | (other, s5) \<Rightarrow> (other, s5)) = p"
  by (cases p) (auto split: outcome.splits option.splits)

lemma job_run:
  assumes list: "ContainerList client (world s) = (Inr containers, w)"
    and ne: "filter (\<lambda>c. Image c = img) containers \<noteq> []"
  shows "\<exists>s3 r s4.
      world s3 = w \<and> calls s3 = calls s @ [ListCall]
    \<and> copyContainer client
         (filter (\<lambda>c. Image c = img) containers
            ! (seeded 0 mod length (filter (\<lambda>c. Image c = img) containers)))
         (Up ratio) s3 = (r, s4)
    \<and> (case r of
         Some err \<Rightarrow> job client img ratio seeded s = (Return (Some err), s4)
       | None \<Rightarrow> job client img ratio seeded s =
           deleteContainer client (filter (\<lambda>c. Image c = img) containers) (Down ratio) s4)
    \<and> (\<forall>c \<in> set (drop (length (calls s4)) (calls (snd (job client img ratio seeded s)))).
          \<exists>x \<in> set (filter (\<lambda>c. Image c = img) containers). c \<in> set (teardown x))"
proof -
  let ?cs = "filter (\<lambda>c. Image c = img) containers"
  let ?L = "length ?cs"
  let ?s1 = "s\<lparr>world := w, calls := calls s @ [ListCall]\<rparr>"
  let ?s2 = "foldl (\<lambda>t candidate.
               log Debug [(''container'', ID candidate), (''image'', Image candidate)]
                 ''found container'' t) ?s1 ?cs"
  let ?s3 = "?s2\<lparr>rng := (\<lambda>k. seeded (Suc k)),
                   draws := draws s @ [(int ?L, int (seeded 0 mod ?L))]\<rparr>"
  let ?tpl = "?cs ! (seeded 0 mod ?L)"
  have L: "0 < ?L" using ne by simp
  have inv: "invoke ListCall (ContainerList client) s = (Inr containers, ?s1)"
    by (simp add: invoke_def list)
  have draw: "Intn (int ?L) (?s2\<lparr>rng := seeded\<rparr>) = (Inr (int (seeded 0 mod ?L)), ?s3)"
    by (simp add: Intn_pos [OF L])
  obtain r s4 where copy: "copyContainer client ?tpl (Up ratio) ?s3 = (r, s4)" by fastforce
  have jb: "job client img ratio seeded s =
      (case r of Some err \<Rightarrow> (Return (Some err), s4)
       | None \<Rightarrow> deleteContainer client ?cs (Down ratio) s4)"
    using ne
    by (simp add: job_def inv job_candidates_filter Let_def draw index_mod [OF ne] copy
          outcome_passed split: option.splits)
  have tail: "\<forall>c \<in> set (drop (length (calls s4)) (calls (snd (job client img ratio seeded s)))).
          \<exists>x \<in> set ?cs. c \<in> set (teardown x)"
  proof (cases r)
    case (Some err)
    then show ?thesis by (simp add: jb)
  next
    case None
    obtain r' s5 where del: "deleteContainer client ?cs (Down ratio) s4 = (r', s5)" by fastforce
    from deleteContainer_calls [OF ne del] obtain xs where
      "calls s5 = calls s4 @ xs" "\<forall>c \<in> set xs. \<exists>x \<in> set ?cs. c \<in> set (teardown x)"
      by blast
    with None del show ?thesis by (simp add: jb)
  qed
  have "world ?s3 = w" "calls ?s3 = calls s @ [ListCall]" by simp_all
  with copy jb tail show ?thesis
    by (intro exI [of _ ?s3] exI [of _ r] exI [of _ s4]) (simp split: option.splits)
qed

subsection \<open>Counts below \<open>2 ^ 63\<close>\<close>

text \<open>
  The size check of \<open>deleteContainer\<close> compares \<open>int(n)\<close> with the size of the
  pool. For every count below \<open>2 ^ 63\<close> the conversion keeps the value, the check
  refuses a count above the size of the pool before anything is called, and the loop
  never draws from an empty pool. The flag parser reads both sides of a ratio as 8-bit
  numbers, so the counts of a parsed ratio are all of this kind.
\<close>

lemma deleteContainer_refuses_small_counts:
  assumes small: "unat n < 2 ^ 63" and more: "length candidates < unat n"
  shows "deleteContainer client candidates n s =
           (Return (Some (CanNotDelete n (int (length candidates)))), s)"
proof -
  from more have "int (length candidates) < int (unat n)" by (simp only: of_nat_less_iff)
  then have "int (length candidates) < sint n" by (simp only: sint_small [OF small])
  then show ?thesis by (rule deleteContainer_insufficient)
qed

lemma drawn_pairs_in_range:
  "cs \<noteq> [] \<Longrightarrow> (b, v) \<in> set (drawn_pairs cs g m) \<Longrightarrow> b = int (length cs) \<and> 0 \<le> v \<and> v < b"
  by (auto simp: drawn_pairs_def)

lemma deleteContainer_small_counts_in_bounds:
  assumes small: "unat n < 2 ^ 63"
    and run: "deleteContainer client candidates n s = (r, s')"
  shows "(\<forall>msg. r \<noteq> Panic msg)
     \<and> (\<exists>ds. draws s' = draws s @ ds
           \<and> (ds \<noteq> [] \<longrightarrow> candidates \<noteq> [])
           \<and> (\<forall>(b, v) \<in> set ds. 0 < b \<and> b = int (length candidates) \<and> 0 \<le> v \<and> v < b))"
proof (cases "int (length candidates) < sint n")
  case True
  with run show ?thesis by (auto simp: deleteContainer_def)
next
  case False
  then have "int (unat n) \<le> int (length candidates)" by (simp only: sint_small [OF small] not_less)
  then have le: "unat n \<le> length candidates" by (simp only: of_nat_le_iff)
  from deleteContainer_run [OF le run] obtain m where m: "m \<le> unat n"
    and d: "draws s' = draws s @ drawn_pairs candidates (rng s) m"
    and np: "\<forall>msg. r \<noteq> Panic msg" by blast
  show ?thesis
  proof (cases "candidates = []")
    case True
    with le m have "m = 0" by simp
    with d np show ?thesis by simp
  next
    case ne: False
    have "\<forall>(b, v) \<in> set (drawn_pairs candidates (rng s) m).
            0 < b \<and> b = int (length candidates) \<and> 0 \<le> v \<and> v < b"
      using drawn_pairs_in_range [OF ne] ne by fastforce
    with d np ne show ?thesis by blast
  qed
qed

lemma drawn_pairs_first:
  "0 < m \<Longrightarrow> \<exists>v ds. drawn_pairs cs g m = (int (length cs), v) # ds"
  by (cases m) (simp_all add: drawn_Suc)

lemma deleteContainer_first_draw:
  assumes small: "unat n < 2 ^ 63"
    and pass: "\<not> int (length candidates) < sint n" and pos: "0 < n"
  shows "candidates \<noteq> []
     \<and> (\<exists>v ds. draws (snd (deleteContainer client candidates n s))
                  = draws s @ (int (length candidates), v) # ds)"
proof -
  from pos have "unat n \<noteq> 0" by (simp add: unat_eq_0)
  then have n1: "0 < unat n" by simp
  from pass have "int (unat n) \<le> int (length candidates)"
    by (simp only: sint_small [OF small] not_less)
  then have le: "unat n \<le> length candidates" by (simp only: of_nat_le_iff)
  with n1 have ne: "candidates \<noteq> []" by auto
  obtain r s' where loop: "deleteContainer_loop client candidates n 0 s = (r, s')" by fastforce
  with pass have run: "deleteContainer client candidates n s = (r, s')"
    by (simp add: deleteContainer_def)
  from deleteContainer_loop_answers [OF ne loop]
  obtain m where "m = unat n \<and> draws s' = draws s @ drawn_pairs candidates (rng s) m
      \<or> draws s' = draws s @ drawn_pairs candidates (rng s) (Suc m)"
    by auto
  then have "\<exists>v ds. draws s' = draws s @ (int (length candidates), v) # ds"
    using drawn_pairs_first [of "unat n" candidates "rng s"] n1
      drawn_pairs_first [of "Suc m" candidates "rng s"]
    by auto
  with ne show ?thesis by (simp add: run)
qed

text \<open>
  The bound is needed only for a call no run of the program makes: converted to
  \<open>int\<close>, a count of \<open>2 ^ 63\<close> is negative, the size check lets it through and the
  loop is entered whatever the size of the pool.
\<close>

lemma deleteContainer_count_2_63:
  "\<not> int (length ([] :: Container list)) < sint (2 ^ 63 :: 64 word)
   \<and> deleteContainer (ok_client []) [] (2 ^ 63) (start_state zeros)
       = (Panic ''invalid argument to Intn'', start_state zeros)
   \<and> calls (snd (deleteContainer (stop_fails (ok_client [])) [app ''a''] (2 ^ 63) (start_state zeros)))
       = [StopCall ''a'']"
  by (simp add: deleteContainer_def deleteContainer_loop.simps deleteContainer_body_def Intn_def
      index_def invoke_def ok_client_def stop_fails_def start_state_def zeros_def app_def)

subsection \<open>Claims about one churn step\<close>

text \<open>
  C1. In a step whose candidate pool is not empty, \<open>job\<close> lists the containers,
  draws the template in the pool and runs \<open>copyContainer\<close> on it. When that returns
  an error, \<open>job\<close> returns this error in the state \<open>copyContainer\<close> left:
  \<open>deleteContainer\<close> is not run and nothing more is called. Otherwise \<open>job\<close> is
  \<open>deleteContainer\<close> on the pool filtered from the listing taken before the
  replication, so every call made after the replication stops, awaits or removes a
  container of that pool, never one created in the step.
\<close>

theorem job_replication_error_skips_destroy:
  assumes "ContainerList client (world s) = (Inr containers, w)"
    and "filter (\<lambda>c. Image c = img) containers \<noteq> []"
  shows "\<exists>s3 r s4.
      world s3 = w \<and> calls s3 = calls s @ [ListCall]
    \<and> copyContainer client
         (filter (\<lambda>c. Image c = img) containers
            ! (seeded 0 mod length (filter (\<lambda>c. Image c = img) containers)))
         (Up ratio) s3 = (r, s4)
    \<and> (case r of
         Some err \<Rightarrow> job client img ratio seeded s = (Return (Some err), s4)
       | None \<Rightarrow> job client img ratio seeded s =
           deleteContainer client (filter (\<lambda>c. Image c = img) containers) (Down ratio) s4)
    \<and> (\<forall>c \<in> set (drop (length (calls s4)) (calls (snd (job client img ratio seeded s)))).
          \<exists>x \<in> set (filter (\<lambda>c. Image c = img) containers). c \<in> set (teardown x))"
  using assms by (rule job_run)

theorem job_replication_error_skips_destroy_witness:
  "ContainerList (create_fails (ok_client [app ''a'', db ''x'', app ''b'']))
       (world (start_state zeros)) = (Inr [app ''a'', db ''x'', app ''b''], 0)
   \<and> filter (\<lambda>c. Image c = ''app:v1'') [app ''a'', db ''x'', app ''b''] = [app ''a'', app ''b'']
   \<and> fst (job (create_fails (ok_client [app ''a'', db ''x'', app ''b''])) ''app:v1''
            \<lparr>Up = 2, Down = 1\<rparr> zeros (start_state zeros))
       = Return (Some (CouldNotCreate (DriverFailure ''full'')))
   \<and> calls (snd (job (create_fails (ok_client [app ''a'', db ''x'', app ''b''])) ''app:v1''
            \<lparr>Up = 2, Down = 1\<rparr> zeros (start_state zeros)))
       = [ListCall, InspectCall ''a'', CreateCall ''cfg-a'' ''host-a'' [(''bridge'', ''a'')]]
   \<and> fst (job (ok_client [app ''a'', db ''x'', app ''b'']) ''app:v1''
            \<lparr>Up = 1, Down = 1\<rparr> zeros (start_state zeros))
       = Return None
   \<and> calls (snd (job (ok_client [app ''a'', db ''x'', app ''b'']) ''app:v1''
            \<lparr>Up = 1, Down = 1\<rparr> zeros (start_state zeros)))
       = [ListCall, InspectCall ''a'', CreateCall ''cfg-a'' ''host-a'' [(''bridge'', ''a'')],
          StartCall ''new'', StopCall ''a'', WaitCall ''a'', RemoveCall ''a'']"
proof -
  have l: "ContainerList (create_fails (ok_client [app ''a'', db ''x'', app ''b'']))
       (world (start_state zeros)) = (Inr [app ''a'', db ''x'', app ''b''], 0)"
    by (simp add: create_fails_def ok_client_def start_state_def)
  have f: "filter (\<lambda>c. Image c = ''app:v1'') [app ''a'', db ''x'', app ''b''] = [app ''a'', app ''b'']"
    by (simp add: app_def db_def)
  then have ne: "filter (\<lambda>c. Image c = ''app:v1'') [app ''a'', db ''x'', app ''b''] \<noteq> []"
    by simp
  note run = job_replication_error_skips_destroy [OF l ne, of zeros "\<lparr>Up = 2, Down = 1\<rparr>"]
  have bad: "job (create_fails (ok_client [app ''a'', db ''x'', app ''b''])) ''app:v1''
            \<lparr>Up = 2, Down = 1\<rparr> zeros (start_state zeros)
       = (Return (Some (CouldNotCreate (DriverFailure ''full''))),
          \<lparr>world = 0, rng = (\<lambda>k. 0), calls = [ListCall, InspectCall ''a'',
               CreateCall ''cfg-a'' ''host-a'' [(''bridge'', ''a'')]],
           draws = [(2, 0)],
           logs = [(Debug, [(''container'', ''a''), (''image'', ''app:v1'')], ''found container''),
                   (Debug, [(''container'', ''b''), (''image'', ''app:v1'')], ''found container'')]\<rparr>)"
    by (simp add: job_def job_candidates_def copyContainer_def copyContainer_loop.simps
        copyContainer_body_def Intn_def index_def invoke_def log_def create_fails_def ok_client_def
        start_state_def zeros_def app_def db_def)
  have good: "job (ok_client [app ''a'', db ''x'', app ''b'']) ''app:v1''
            \<lparr>Up = 1, Down = 1\<rparr> zeros (start_state zeros)
       = (Return None,
          \<lparr>world = 1, rng = (\<lambda>k. 0), calls = [ListCall, InspectCall ''a'',
               CreateCall ''cfg-a'' ''host-a'' [(''bridge'', ''a'')], StartCall ''new'',
               StopCall ''a'', WaitCall ''a'', RemoveCall ''a''],
           draws = [(2, 0), (2, 0)],
           logs = [(Debug, [(''container'', ''a''), (''image'', ''app:v1'')], ''found container''),
                   (Debug, [(''container'', ''b''), (''image'', ''app:v1'')], ''found container''),
                   (Info, [(''container'', ''new'')], ''create container''),
                   (Info, [(''container'', ''new'')], ''start container''),
                   (Info, [(''container'', ''a'')], ''stop container''),
                   (Info, [(''container'', ''a'')], ''remove container'')]\<rparr>)"
    by (simp add: job_def job_candidates_def copyContainer_def copyContainer_loop.simps
        copyContainer_body_def deleteContainer_def deleteContainer_loop.simps
        deleteContainer_body_def Intn_def index_def invoke_def log_def ok_client_def
        start_state_def zeros_def app_def db_def)
  from run l f show ?thesis by (simp add: bad good)
qed

text \<open>
  C8. The pool of a step is the listing filtered by string equality on the image, in the
  order of the listing. When the listing succeeds and no container matches, \<open>job\<close>
  returns \<open>nil\<close> after the listing call alone: the state it leaves is the one it
  started in, but for what the listing did to the daemon and the record of that call.
\<close>

theorem job_selects_by_image:
  "job_candidates img containers = filter (\<lambda>c. Image c = img) containers
   \<and> (ContainerList client (world s) = (Inr containers, w)
        \<and> filter (\<lambda>c. Image c = img) containers = [] \<longrightarrow>
      job client img ratio seeded s = (Return None, s\<lparr>world := w, calls := calls s @ [ListCall]\<rparr>))"
  by (simp add: job_candidates_filter job_def invoke_def)

theorem job_selects_by_image_witness:
  "ContainerList (ok_client [db ''x'']) (world (start_state zeros)) = (Inr [db ''x''], 0)
   \<and> filter (\<lambda>c. Image c = ''app:v1'') [db ''x''] = []
   \<and> job (ok_client [db ''x'']) ''app:v1'' \<lparr>Up = 2, Down = 1\<rparr> zeros (start_state zeros)
       = (Return None, (start_state zeros) \<lparr>world := 0, calls := calls (start_state zeros) @ [ListCall]\<rparr>)
   \<and> job_candidates ''app:v1'' [app ''a'', db ''x'', app ''b''] = [app ''a'', app ''b'']"
proof -
  have l: "ContainerList (ok_client [db ''x'']) (world (start_state zeros)) = (Inr [db ''x''], 0)"
    by (simp add: ok_client_def stop_fails_def inspect_fails_def start_state_def zeros_def)
  have e: "filter (\<lambda>c. Image c = ''app:v1'') [db ''x''] = []"
    by (simp add: db_def)
  have f: "filter (\<lambda>c. Image c = ''app:v1'') [app ''a'', db ''x'', app ''b''] = [app ''a'', app ''b'']"
    by (simp add: db_def app_def)
  from job_selects_by_image [of "''app:v1''" "[db ''x'']" "ok_client [db ''x'']" "start_state zeros" 0
      "\<lparr>Up = 2, Down = 1\<rparr>" zeros] l e
  have "job (ok_client [db ''x'']) ''app:v1'' \<lparr>Up = 2, Down = 1\<rparr> zeros (start_state zeros)
       = (Return None, (start_state zeros) \<lparr>world := 0, calls := calls (start_state zeros) @ [ListCall]\<rparr>)"
    by blast
  moreover from job_selects_by_image [of "''app:v1''" "[app ''a'', db ''x'', app ''b'']"] f
  have "job_candidates ''app:v1'' [app ''a'', db ''x'', app ''b''] = [app ''a'', app ''b'']"
    by simp
  ultimately show ?thesis using l e by simp
qed

subsection \<open>Claims about copyContainer\<close>

text \<open>
  C3, as the code has it. \<open>deleteContainer\<close> with the count 0 is a no-op: it
  returns \<open>nil\<close> and leaves the state as it was. \<open>copyContainer\<close> with the count 0
  creates and starts nothing, but it still inspects the template: it makes exactly this
  one call, returns the wrapped error when the inspection fails and \<open>nil\<close>
  otherwise.
\<close>

theorem zero_count_runs:
  "deleteContainer client candidates 0 s = (Return None, s)
   \<and> copyContainer client c 0 s =
       (case ContainerInspect client (ID c) (world s) of
          (Inl e, w) \<Rightarrow> (Some (CouldNotInspect (ID c) e), s\<lparr>world := w, calls := calls s @ [InspectCall (ID c)]\<rparr>)
        | (Inr infos, w) \<Rightarrow> (None, s\<lparr>world := w, calls := calls s @ [InspectCall (ID c)]\<rparr>))"
  using deleteContainer_zero copyContainer_zero by blast

text \<open>
  The claim C3 as stated fails for \<open>copyContainer\<close>: with the count 0 one call is
  made, and on a client whose inspection fails an error is returned.
\<close>

theorem copyContainer_zero_counterexample:
  "calls (start_state zeros) = []
   \<and> calls (snd (copyContainer (ok_client []) (app ''a'') 0 (start_state zeros))) = [InspectCall ''a'']
   \<and> fst (copyContainer (inspect_fails (ok_client []))
            (app ''a'') 0 (start_state zeros))
       = Some (CouldNotInspect ''a'' (DriverFailure ''gone''))"
  by (simp add: copyContainer_def copyContainer_loop.simps invoke_def ok_client_def stop_fails_def inspect_fails_def start_state_def zeros_def app_def)

text \<open>
  C5, as the code has it. \<open>copyContainer\<close> inspects the template exactly once, first.
  When the inspection fails it returns the wrapped error of the client and calls nothing
  else. Otherwise every creation uses the configuration and the host configuration of
  that one inspection, and the network endpoints of the descriptor it was given (those
  of the listing, not of the inspection); each creation is followed at once by the start
  of the container it returned. The iterations go on as long as the client answers every
  creation and every start without an error, for \<open>n\<close> iterations at most: either all
  \<open>n\<close> succeed and the function returns \<open>nil\<close>, or the first creation or start the
  client refuses ends the function at once, with the client's error wrapped and no
  call after the refused one. It never stops or removes a container, so what earlier
  iterations created stays.
\<close>

theorem copyContainer_inspects_once:
  "rng (snd (copyContainer client c n s)) = rng s
   \<and> draws (snd (copyContainer client c n s)) = draws s
   \<and> (case ContainerInspect client (ID c) (world s) of
        (Inl e, w) \<Rightarrow>
          copyContainer client c n s
            = (Some (CouldNotInspect (ID c) e), s\<lparr>world := w, calls := calls s @ [InspectCall (ID c)]\<rparr>)
      | (Inr infos, w) \<Rightarrow>
          (\<exists>bodies wk.
              length bodies \<le> unat n
            \<and> copies_done client (Config infos) (HostConfig infos) (Networks c) w bodies wk
            \<and> (length bodies = unat n
                 \<and> fst (copyContainer client c n s) = None
                 \<and> world (snd (copyContainer client c n s)) = wk
                 \<and> calls (snd (copyContainer client c n s))
                     = calls s @ InspectCall (ID c)
                         # replicas (Config infos) (HostConfig infos) (Networks c) bodies
               \<or> length bodies < unat n
                 \<and> (\<exists>cs. copy_fails client (Config infos) (HostConfig infos) (Networks c) wk
                            (fst (copyContainer client c n s)) cs
                            (world (snd (copyContainer client c n s)))
                       \<and> calls (snd (copyContainer client c n s))
                           = calls s @ InspectCall (ID c)
                               # replicas (Config infos) (HostConfig infos) (Networks c) bodies @ cs))))
   \<and> (\<forall>e. fst (copyContainer client c n s) = Some e \<longrightarrow> is_DriverError e)"
proof -
  obtain x w where ins: "ContainerInspect client (ID c) (world s) = (x, w)" by fastforce
  let ?s1 = "s\<lparr>world := w, calls := calls s @ [InspectCall (ID c)]\<rparr>"
  have inv: "invoke (InspectCall (ID c)) (ContainerInspect client (ID c)) s = (x, ?s1)"
    by (simp add: invoke_def ins)
  show ?thesis
  proof (cases x)
    case (Inl e)
    with inv ins show ?thesis by (simp add: copyContainer_def)
  next
    case (Inr infos)
    let ?cc = "Config infos" and ?hc = "HostConfig infos" and ?nc = "Networks c"
    obtain r s' where loop: "copyContainer_loop client ?cc ?hc ?nc n 0 ?s1 = (r, s')"
      by fastforce
    with inv Inr have run: "copyContainer client c n s = (r, s')"
      by (simp add: copyContainer_def)
    from copyContainer_loop_answers [OF loop]
    obtain bodies wk where g: "rng s' = rng s" and d: "draws s' = draws s"
      and len: "length bodies \<le> unat n"
      and cd: "copies_done client ?cc ?hc ?nc w bodies wk"
      and fin: "length bodies = unat n \<and> r = None \<and> world s' = wk
              \<and> calls s' = calls s @ InspectCall (ID c) # replicas ?cc ?hc ?nc bodies
            \<or> length bodies < unat n
              \<and> (\<exists>cs. copy_fails client ?cc ?hc ?nc wk r cs (world s')
                    \<and> calls s' = calls s @ InspectCall (ID c) # replicas ?cc ?hc ?nc bodies @ cs)"
      by auto
    from fin have err: "\<forall>e. r = Some e \<longrightarrow> is_DriverError e"
      using copy_fails_DriverError by fastforce
    have shape: "\<exists>bodies wk.
              length bodies \<le> unat n
            \<and> copies_done client ?cc ?hc ?nc w bodies wk
            \<and> (length bodies = unat n \<and> r = None \<and> world s' = wk
                 \<and> calls s' = calls s @ InspectCall (ID c) # replicas ?cc ?hc ?nc bodies
               \<or> length bodies < unat n
                 \<and> (\<exists>cs. copy_fails client ?cc ?hc ?nc wk r cs (world s')
                       \<and> calls s' = calls s @ InspectCall (ID c) # replicas ?cc ?hc ?nc bodies @ cs))"
      using len cd fin by - (rule exI [of _ bodies], rule exI [of _ wk], intro conjI, assumption+)
    from g d err shape show ?thesis
      by (simp only: run fst_conv snd_conv ins Inr prod.case sum.case)
  qed
qed

theorem copyContainer_inspects_once_witness:
  "copyContainer (inspect_fails (ok_client [])) (app ''a'') 2 (start_state zeros)
       = (Some (CouldNotInspect ''a'' (DriverFailure ''gone'')),
          (start_state zeros)\<lparr>calls := [InspectCall ''a'']\<rparr>)
   \<and> fst (copyContainer (ok_client []) (app ''a'') 2 (start_state zeros)) = None
   \<and> calls (snd (copyContainer (ok_client []) (app ''a'') 2 (start_state zeros)))
       = [InspectCall ''a'',
          CreateCall ''cfg-a'' ''host-a'' [(''bridge'', ''a'')], StartCall ''new'',
          CreateCall ''cfg-a'' ''host-a'' [(''bridge'', ''a'')], StartCall ''new+'']
   \<and> fst (copyContainer (create_fails (ok_client [])) (app ''a'') 2 (start_state zeros))
       = Some (CouldNotCreate (DriverFailure ''full''))
   \<and> calls (snd (copyContainer (create_fails (ok_client [])) (app ''a'') 2 (start_state zeros)))
       = [InspectCall ''a'', CreateCall ''cfg-a'' ''host-a'' [(''bridge'', ''a'')]]
   \<and> fst (copyContainer (start_fails (ok_client [])) (app ''a'') 2 (start_state zeros))
       = Some (CouldNotStart ''new'' (DriverFailure ''busy''))
   \<and> calls (snd (copyContainer (start_fails (ok_client [])) (app ''a'') 2 (start_state zeros)))
       = [InspectCall ''a'', CreateCall ''cfg-a'' ''host-a'' [(''bridge'', ''a'')], StartCall ''new'']
   \<and> is_DriverError (CouldNotStart ''new'' (DriverFailure ''busy''))"
proof -
  have run: "copyContainer (inspect_fails (ok_client [])) (app ''a'') 2 (start_state zeros)
       = (Some (CouldNotInspect ''a'' (DriverFailure ''gone'')),
          (start_state zeros)\<lparr>calls := [InspectCall ''a'']\<rparr>)
   \<and> fst (copyContainer (ok_client []) (app ''a'') 2 (start_state zeros)) = None
   \<and> calls (snd (copyContainer (ok_client []) (app ''a'') 2 (start_state zeros)))
       = [InspectCall ''a'',
          CreateCall ''cfg-a'' ''host-a'' [(''bridge'', ''a'')], StartCall ''new'',
          CreateCall ''cfg-a'' ''host-a'' [(''bridge'', ''a'')], StartCall ''new+'']
   \<and> fst (copyContainer (create_fails (ok_client [])) (app ''a'') 2 (start_state zeros))
       = Some (CouldNotCreate (DriverFailure ''full''))
   \<and> calls (snd (copyContainer (create_fails (ok_client [])) (app ''a'') 2 (start_state zeros)))
       = [InspectCall ''a'', CreateCall ''cfg-a'' ''host-a'' [(''bridge'', ''a'')]]
   \<and> fst (copyContainer (start_fails (ok_client [])) (app ''a'') 2 (start_state zeros))
       = Some (CouldNotStart ''new'' (DriverFailure ''busy''))
   \<and> calls (snd (copyContainer (start_fails (ok_client [])) (app ''a'') 2 (start_state zeros)))
       = [InspectCall ''a'', CreateCall ''cfg-a'' ''host-a'' [(''bridge'', ''a'')], StartCall ''new'']
   \<and> is_DriverError (CouldNotStart ''new'' (DriverFailure ''busy''))"
    by (simp add: copyContainer_def copyContainer_loop.simps copyContainer_body_def invoke_def
        log_def inspect_fails_def create_fails_def start_fails_def ok_client_def start_state_def
        app_def Let_def)
  from copyContainer_inspects_once [of "start_fails (ok_client [])" "app ''a''" 2 "start_state zeros"]
  show ?thesis by - (rule run)
qed

text \<open>
  The claim C5 as stated fails in one point: the endpoints passed to every creation
  are not among what the inspection yields. Here the inspection reports the endpoints
  \<open>inspected\<close> and the creation receives those of the descriptor, \<open>bridge\<close>.
\<close>

theorem copyContainer_endpoints_counterexample:
  "fst (ContainerInspect (ok_client []) ''a'' 0)
     = Inr \<lparr>Config = ''cfg-a'', HostConfig = ''host-a'', InspectNetworks = [(''inspected'', ''a'')]\<rparr>
   \<and> Networks (app ''a'') = [(''bridge'', ''a'')]
   \<and> calls (snd (copyContainer (ok_client []) (app ''a'') 1 (start_state zeros)))
     = [InspectCall ''a'', CreateCall ''cfg-a'' ''host-a'' [(''bridge'', ''a'')], StartCall ''new'']"
  by (simp add: copyContainer_def copyContainer_loop.simps copyContainer_body_def invoke_def log_def
      ok_client_def stop_fails_def inspect_fails_def start_state_def zeros_def app_def)

subsection \<open>Claims about deleteContainer\<close>

text \<open>
  C6. When the count is at most the size of the pool, the size check passes and
  \<open>deleteContainer\<close> makes one draw per iteration, each with the size of the whole
  pool as its bound, whatever was drawn before: the victim is the container of the pool
  at the drawn index, so one container can be drawn again. Each victim is stopped, then
  awaited, then removed, and the next draw is made only when the client stopped it
  without an error, answered the wait and removed it without an error. Either this
  happens \<open>n\<close> times, and the function returns \<open>nil\<close> after \<open>n\<close> draws and
  \<open>n\<close> complete teardowns; or the teardown of one victim does not get through, and
  the function ends there: with the wrapped error of the stop and no wait, or blocked
  on the wait with no removal, or with the wrapped error of the removal. The result of
  \<open>rand.Intn\<close> is used as the index as it is, so the victims are as uniform and as
  independent as its results.
\<close>

theorem deleteContainer_draws_from_whole_pool:
  assumes "unat n \<le> length candidates"
  shows "(\<exists>m wk. m \<le> unat n
      \<and> torn_down client (world s) (drawn candidates (rng s) m) wk
      \<and> (m = unat n
           \<and> fst (deleteContainer client candidates n s) = Return None
           \<and> world (snd (deleteContainer client candidates n s)) = wk
           \<and> draws (snd (deleteContainer client candidates n s))
               = draws s @ drawn_pairs candidates (rng s) m
           \<and> calls (snd (deleteContainer client candidates n s))
               = calls s @ concat (map teardown (drawn candidates (rng s) m))
         \<or> m < unat n
           \<and> (\<exists>cs. teardown_fails client wk (candidates ! (rng s m mod length candidates))
                      (fst (deleteContainer client candidates n s)) cs
                      (world (snd (deleteContainer client candidates n s)))
                 \<and> draws (snd (deleteContainer client candidates n s))
                     = draws s @ drawn_pairs candidates (rng s) (Suc m)
                 \<and> calls (snd (deleteContainer client candidates n s))
                     = calls s @ concat (map teardown (drawn candidates (rng s) m)) @ cs)))
   \<and> (\<forall>k. drawn candidates (rng s) k
             = map (\<lambda>d. candidates ! nat (snd d)) (drawn_pairs candidates (rng s) k))
   \<and> (candidates \<noteq> [] \<longrightarrow>
        (\<forall>k. (\<forall>d \<in> set (drawn_pairs candidates (rng s) k).
                 fst d = int (length candidates) \<and> 0 \<le> snd d \<and> snd d < int (length candidates))
             \<and> set (drawn candidates (rng s) k) \<subseteq> set candidates))"
proof (intro conjI)
  have "sint n \<le> int (unat n)" by (rule sint_le_unat)
  moreover from assms have "int (unat n) \<le> int (length candidates)" by (simp only: of_nat_le_iff)
  ultimately have pass: "\<not> int (length candidates) < sint n" by linarith
  show "\<exists>m wk. m \<le> unat n
      \<and> torn_down client (world s) (drawn candidates (rng s) m) wk
      \<and> (m = unat n
           \<and> fst (deleteContainer client candidates n s) = Return None
           \<and> world (snd (deleteContainer client candidates n s)) = wk
           \<and> draws (snd (deleteContainer client candidates n s))
               = draws s @ drawn_pairs candidates (rng s) m
           \<and> calls (snd (deleteContainer client candidates n s))
               = calls s @ concat (map teardown (drawn candidates (rng s) m))
         \<or> m < unat n
           \<and> (\<exists>cs. teardown_fails client wk (candidates ! (rng s m mod length candidates))
                      (fst (deleteContainer client candidates n s)) cs
                      (world (snd (deleteContainer client candidates n s)))
                 \<and> draws (snd (deleteContainer client candidates n s))
                     = draws s @ drawn_pairs candidates (rng s) (Suc m)
                 \<and> calls (snd (deleteContainer client candidates n s))
                     = calls s @ concat (map teardown (drawn candidates (rng s) m)) @ cs))"
  proof (cases "candidates = []")
    case True
    with assms have "n = 0" by (simp add: unat_eq_0)
    then have "deleteContainer client candidates n s = (Return None, s)"
      by (simp add: deleteContainer_zero)
    with \<open>n = 0\<close> show ?thesis
      by (intro exI [of _ 0] exI [of _ "world s"]) simp
  next
    case False
    obtain r s' where loop: "deleteContainer_loop client candidates n 0 s = (r, s')" by fastforce
    with pass have run: "deleteContainer client candidates n s = (r, s')"
      by (simp add: deleteContainer_def)
    from deleteContainer_loop_answers [OF False loop]
    obtain m wk where m: "m \<le> unat n"
      and td: "torn_down client (world s) (drawn candidates (rng s) m) wk"
      and fin: "m = unat n \<and> r = Return None \<and> world s' = wk
           \<and> draws s' = draws s @ drawn_pairs candidates (rng s) m
           \<and> calls s' = calls s @ concat (map teardown (drawn candidates (rng s) m))
         \<or> m < unat n
           \<and> (\<exists>cs. teardown_fails client wk (candidates ! (rng s m mod length candidates))
                      r cs (world s')
                 \<and> draws s' = draws s @ drawn_pairs candidates (rng s) (Suc m)
                 \<and> calls s' = calls s @ concat (map teardown (drawn candidates (rng s) m)) @ cs)"
      by auto
    from m td fin show ?thesis
      unfolding run fst_conv snd_conv
      by - (rule exI [of _ m], rule exI [of _ wk], intro conjI, assumption+)
  qed
next
  show "\<forall>k. drawn candidates (rng s) k
             = map (\<lambda>d. candidates ! nat (snd d)) (drawn_pairs candidates (rng s) k)"
    by (simp add: drawn_def drawn_pairs_def)
next
  show "candidates \<noteq> [] \<longrightarrow>
        (\<forall>k. (\<forall>d \<in> set (drawn_pairs candidates (rng s) k).
                 fst d = int (length candidates) \<and> 0 \<le> snd d \<and> snd d < int (length candidates))
             \<and> set (drawn candidates (rng s) k) \<subseteq> set candidates)"
    using drawn_pairs_in_range [of candidates] drawn_in_pool [of candidates] by fastforce
qed

theorem deleteContainer_draws_from_whole_pool_witness:
  "unat (2 :: 64 word) \<le> length [app ''a'', app ''b'']
   \<and> fst (deleteContainer (ok_client []) [app ''a'', app ''b''] 2 (start_state zeros)) = Return None
   \<and> draws (snd (deleteContainer (ok_client []) [app ''a'', app ''b''] 2 (start_state zeros)))
       = [(2, 0), (2, 0)]
   \<and> calls (snd (deleteContainer (ok_client []) [app ''a'', app ''b''] 2 (start_state zeros)))
       = [StopCall ''a'', WaitCall ''a'', RemoveCall ''a'',
          StopCall ''a'', WaitCall ''a'', RemoveCall ''a'']
   \<and> fst (deleteContainer (wait_hangs (ok_client [])) [app ''a'', app ''b''] 2 (start_state ups))
       = Blocked
   \<and> calls (snd (deleteContainer (wait_hangs (ok_client [])) [app ''a'', app ''b''] 2 (start_state ups)))
       = [StopCall ''b'', WaitCall ''b'']
   \<and> fst (deleteContainer (stop_fails (ok_client [])) [app ''a'', app ''b''] 2 (start_state ups))
       = Return (Some (CouldNotStop ''b'' (DriverFailure ''gone'')))
   \<and> calls (snd (deleteContainer (stop_fails (ok_client [])) [app ''a'', app ''b''] 2 (start_state ups)))
       = [StopCall ''b'']"
proof -
  have le: "unat (2 :: 64 word) \<le> length [app ''a'', app ''b'']" by simp
  have run: "fst (deleteContainer (ok_client []) [app ''a'', app ''b''] 2 (start_state zeros)) = Return None
   \<and> draws (snd (deleteContainer (ok_client []) [app ''a'', app ''b''] 2 (start_state zeros)))
       = [(2, 0), (2, 0)]
   \<and> calls (snd (deleteContainer (ok_client []) [app ''a'', app ''b''] 2 (start_state zeros)))
       = [StopCall ''a'', WaitCall ''a'', RemoveCall ''a'',
          StopCall ''a'', WaitCall ''a'', RemoveCall ''a'']
   \<and> fst (deleteContainer (wait_hangs (ok_client [])) [app ''a'', app ''b''] 2 (start_state ups))
       = Blocked
   \<and> calls (snd (deleteContainer (wait_hangs (ok_client [])) [app ''a'', app ''b''] 2 (start_state ups)))
       = [StopCall ''b'', WaitCall ''b'']
   \<and> fst (deleteContainer (stop_fails (ok_client [])) [app ''a'', app ''b''] 2 (start_state ups))
       = Return (Some (CouldNotStop ''b'' (DriverFailure ''gone'')))
   \<and> calls (snd (deleteContainer (stop_fails (ok_client [])) [app ''a'', app ''b''] 2 (start_state ups)))
       = [StopCall ''b'']"
    by (simp add: deleteContainer_def deleteContainer_loop.simps deleteContainer_body_def Intn_def
        index_def invoke_def log_def wait_hangs_def stop_fails_def ok_client_def start_state_def
        zeros_def ups_def app_def)
  from deleteContainer_draws_from_whole_pool
    [OF le, of "wait_hangs (ok_client [])" "start_state ups"]
  show ?thesis by - (rule conjI [OF le run])
qed

text \<open>
  C2. For every pool and every count above the size of the pool, \<open>deleteContainer\<close>
  returns the error that says so and leaves the state as it was: no call is made to the
  client, the daemon is untouched, nothing is drawn. Counts are \<open>uint64\<close> and the
  check is made on \<open>int(n)\<close>, so this is stated for the counts below \<open>2 ^ 63\<close>;
  every count \<open>main\<close> can pass is between 1 and 255.
\<close>

theorem deleteContainer_refuses_excess_count:
  "(unat n < 2 ^ 63 \<and> length candidates < unat n \<longrightarrow>
      deleteContainer client candidates n s
        = (Return (Some (CanNotDelete n (int (length candidates)))), s)
      \<and> is_InsufficientCandidatesError (CanNotDelete n (int (length candidates))))
   \<and> (main_ratio vs = Inr ratio \<longrightarrow>
        1 \<le> unat (Down ratio) \<and> unat (Down ratio) \<le> 255 \<and> unat (Down ratio) < 2 ^ 63)
   \<and> (main_ratio vs = Inr ratio \<and> length candidates < unat (Down ratio) \<longrightarrow>
        deleteContainer client candidates (Down ratio) s
          = (Return (Some (CanNotDelete (Down ratio) (int (length candidates)))), s))"
proof (intro conjI impI)
  assume "unat n < 2 ^ 63 \<and> length candidates < unat n"
  then show "deleteContainer client candidates n s
        = (Return (Some (CanNotDelete n (int (length candidates)))), s)"
    using deleteContainer_refuses_small_counts by blast
next
  show "is_InsufficientCandidatesError (CanNotDelete n (int (length candidates)))" by simp
next
  assume m: "main_ratio vs = Inr ratio"
  from main_ratio_bounds [OF m] show "1 \<le> unat (Down ratio)" "unat (Down ratio) \<le> 255"
    by simp_all
  then show "unat (Down ratio) < 2 ^ 63" by (intro small_count)
next
  assume "main_ratio vs = Inr ratio \<and> length candidates < unat (Down ratio)"
  then have m: "main_ratio vs = Inr ratio" and l: "length candidates < unat (Down ratio)"
    by simp_all
  from main_ratio_bounds [OF m] have "unat (Down ratio) < 2 ^ 63" by (intro small_count) simp
  from deleteContainer_refuses_small_counts [OF this l]
  show "deleteContainer client candidates (Down ratio) s
          = (Return (Some (CanNotDelete (Down ratio) (int (length candidates)))), s)" .
qed

lemma main_ratio_1_3: "main_ratio [''1:3''] = Inr \<lparr>Up = 1, Down = 3\<rparr>"
  by (simp add: main_ratio_def RatioValue_Set_def ParseUint_def zero_RatioValue_def is_digit_def
      digit_val_def Let_def cutoff_def maxVal_def resolve_def isZero_def)

theorem deleteContainer_refuses_excess_count_witness:
  "main_ratio [''1:3''] = Inr \<lparr>Up = 1, Down = 3\<rparr>
   \<and> length [app ''a'', app ''b''] < unat (Down \<lparr>Up = 1, Down = 3\<rparr>)
   \<and> deleteContainer (ok_client []) [app ''a'', app ''b''] (Down \<lparr>Up = 1, Down = 3\<rparr>) (start_state zeros)
       = (Return (Some (CanNotDelete 3 2)), start_state zeros)
   \<and> calls (start_state zeros) = []"
proof -
  have l: "length [app ''a'', app ''b''] < unat (Down \<lparr>Up = 1, Down = 3\<rparr>)" by simp
  from deleteContainer_refuses_excess_count
    [of 3 "[app ''a'', app ''b'']" "ok_client []" "start_state zeros" "[''1:3'']" "\<lparr>Up = 1, Down = 3\<rparr>"]
    main_ratio_1_3 l
  have "deleteContainer (ok_client []) [app ''a'', app ''b''] (Down \<lparr>Up = 1, Down = 3\<rparr>) (start_state zeros)
       = (Return (Some (CanNotDelete (Down \<lparr>Up = 1, Down = 3\<rparr>) (int (length [app ''a'', app ''b''])))), start_state zeros)"
    by blast
  with main_ratio_1_3 l show ?thesis by (simp add: start_state_def)
qed

text \<open>
  C10. \<open>deleteContainer\<close> never panics: no draw is made with a bound that is not
  positive and no index is out of range. Every draw it makes has the size of the
  pool as its bound and a result from 0 up to, and not including, that size; and when
  the size check passes and the loop is entered, the pool is not empty and a first draw
  is made. As for C2, this is stated for the counts below \<open>2 ^ 63\<close>, which include
  every count \<open>main\<close> can pass.
\<close>

theorem deleteContainer_draws_in_bounds:
  "(unat n < 2 ^ 63 \<longrightarrow>
      (\<forall>msg. fst (deleteContainer client candidates n s) \<noteq> Panic msg)
    \<and> (\<exists>ds. draws (snd (deleteContainer client candidates n s)) = draws s @ ds
          \<and> (ds \<noteq> [] \<longrightarrow> candidates \<noteq> [])
          \<and> (\<forall>(b, v) \<in> set ds. 0 < b \<and> b = int (length candidates) \<and> 0 \<le> v \<and> v < b))
    \<and> (\<not> int (length candidates) < sint n \<and> 0 < n \<longrightarrow>
          candidates \<noteq> []
        \<and> (\<exists>v ds. draws (snd (deleteContainer client candidates n s))
                    = draws s @ (int (length candidates), v) # ds)))
   \<and> (main_ratio vs = Inr ratio \<longrightarrow> unat (Down ratio) < 2 ^ 63)"
proof (intro conjI impI)
  assume small: "unat n < 2 ^ 63"
  obtain r s' where run: "deleteContainer client candidates n s = (r, s')" by fastforce
  note B = deleteContainer_small_counts_in_bounds [OF small run]
  from B show "\<forall>msg. fst (deleteContainer client candidates n s) \<noteq> Panic msg"
    by (simp add: run)
  from B show "\<exists>ds. draws (snd (deleteContainer client candidates n s)) = draws s @ ds
          \<and> (ds \<noteq> [] \<longrightarrow> candidates \<noteq> [])
          \<and> (\<forall>(b, v) \<in> set ds. 0 < b \<and> b = int (length candidates) \<and> 0 \<le> v \<and> v < b)"
    by (simp add: run)
next
  assume small: "unat n < 2 ^ 63"
    and "\<not> int (length candidates) < sint n \<and> 0 < n"
  then have pass: "\<not> int (length candidates) < sint n" and pos: "0 < n" by simp_all
  note F = deleteContainer_first_draw [OF small pass pos, of client s]
  from F show "candidates \<noteq> []" by simp
  from F show "\<exists>v ds. draws (snd (deleteContainer client candidates n s))
                    = draws s @ (int (length candidates), v) # ds" by simp
next
  assume m: "main_ratio vs = Inr ratio"
  from main_ratio_bounds [OF m] show "unat (Down ratio) < 2 ^ 63" by (intro small_count) simp
qed

theorem deleteContainer_draws_in_bounds_witness:
  "unat (2 :: 64 word) < 2 ^ 63
   \<and> \<not> int (length [app ''a'', app ''b'', app ''c'']) < sint (2 :: 64 word)
   \<and> (0 :: 64 word) < 2
   \<and> fst (deleteContainer (ok_client []) [app ''a'', app ''b'', app ''c''] 2 (start_state ups))
       = Return None
   \<and> draws (snd (deleteContainer (ok_client []) [app ''a'', app ''b'', app ''c''] 2
                   (start_state ups)))
       = [(3, 1), (3, 2)]"
proof -
  have small: "unat (2 :: 64 word) < 2 ^ 63" by simp
  have run: "\<not> int (length [app ''a'', app ''b'', app ''c'']) < sint (2 :: 64 word)
   \<and> (0 :: 64 word) < 2
   \<and> fst (deleteContainer (ok_client []) [app ''a'', app ''b'', app ''c''] 2 (start_state ups))
       = Return None
   \<and> draws (snd (deleteContainer (ok_client []) [app ''a'', app ''b'', app ''c''] 2
                   (start_state ups)))
       = [(3, 1), (3, 2)]"
    by (simp add: deleteContainer_def deleteContainer_loop.simps deleteContainer_body_def Intn_def
        index_def invoke_def log_def ok_client_def start_state_def ups_def app_def)
  from deleteContainer_draws_in_bounds
    [of 2 "ok_client []" "[app ''a'', app ''b'', app ''c'']" "start_state ups"]
  show ?thesis by - (rule conjI [OF small run])
qed

end
